theory Spec2Isabelle
  imports Complex_Main "HOL-Library.Word"
begin

unbundle bit_operations_syntax

section \<open>JavaScript numbers\<close>

text \<open>
  A JavaScript number is an IEEE 754 double: a finite value, NaN or one of the two
  infinities. A finite double is kept as the rational it denotes. Addition, subtraction,
  multiplication and division compute the exact result and round it to the nearest double
  (\<open>double_of\<close> below), a tie to the even significand, a result beyond the largest double
  to an infinity; comparisons, \<open>Math.abs\<close>, \<open>Math.round\<close> and \<open>Math.max\<close> are exact on
  doubles. The sign of zero is not modelled (the code never divides by a zero it has
  computed). The numbers that come from outside (\<open>parseFloat\<close> of a text) are doubles.
\<close>

datatype jsnum = Fin rat | NaN | PInf | NInf

fun isFinite :: "jsnum \<Rightarrow> bool" where
  "isFinite (Fin x) = True"
| "isFinite NaN = False"
| "isFinite PInf = False"
| "isFinite NInf = False"

text \<open>
  Rounding a rational to a double. \<open>pow2 k\<close> is \<open>2^k\<close> for an integer \<open>k\<close>, computed by
  squaring. A positive double below \<open>2^1024\<close> has an exponent \<open>e\<close> between \<open>-1022\<close> and \<open>1023\<close>
  and is a multiple of \<open>2^(e-52)\<close>: \<open>e\<close> is the largest exponent in that range with
  \<open>2^e <= x\<close>, and \<open>-1022\<close> for the subnormal numbers below \<open>2^(-1022)\<close>, which are the
  multiples of \<open>2^(-1074)\<close>. \<open>exponent_between lo hi x\<close> finds it by bisection. A value that
  rounds to \<open>2^1024\<close> or more becomes an infinity.
\<close>

function pow2_nonneg :: "int \<Rightarrow> rat" where
  "pow2_nonneg k =
     (if k \<le> 0 then 1
      else if even k then (pow2_nonneg (k div 2))\<^sup>2
      else 2 * (pow2_nonneg (k div 2))\<^sup>2)"
  by pat_completeness auto
termination
  by (relation "measure (\<lambda>k. nat k)") auto

declare pow2_nonneg.simps [simp del]

definition pow2 :: "int \<Rightarrow> rat" where
  "pow2 k = (if 0 \<le> k then pow2_nonneg k else 1 / pow2_nonneg (- k))"

function exponent_between :: "int \<Rightarrow> int \<Rightarrow> rat \<Rightarrow> int" where
  "exponent_between lo hi x =
     (if hi \<le> lo + 1 then lo
      else if pow2 ((lo + hi) div 2) \<le> x then exponent_between ((lo + hi) div 2) hi x
      else exponent_between lo ((lo + hi) div 2) x)"
  by pat_completeness auto
termination
  by (relation "measure (\<lambda>(lo, hi, x). nat (hi - lo))") auto

declare exponent_between.simps [simp del]

definition exponent_of :: "rat \<Rightarrow> int" where
  "exponent_of x = exponent_between (- 1022) 1024 x"

definition round_half_even :: "rat \<Rightarrow> int" where
  "round_half_even y =
     (let f = \<lfloor>y\<rfloor>; d = y - of_int f
      in if d < 1 / 2 then f else if 1 / 2 < d then f + 1 else if even f then f else f + 1)"

definition js_inf :: "rat \<Rightarrow> jsnum" where
  "js_inf s = (if s = 0 then NaN else if 0 < s then PInf else NInf)"

definition double_of :: "rat \<Rightarrow> jsnum" where
  "double_of x =
     (if x = 0 then Fin 0
      else
        (let quantum = pow2 (exponent_of \<bar>x\<bar> - 52);
             r = of_int (round_half_even (\<bar>x\<bar> / quantum)) * quantum
         in if pow2 1024 \<le> r then js_inf (sgn x) else Fin (sgn x * r)))"

text \<open>The comparisons \<open>a <= b\<close> and \<open>a > b\<close>: both are false when an operand is NaN.\<close>

fun js_le :: "jsnum \<Rightarrow> jsnum \<Rightarrow> bool" where
  "js_le NaN b = False"
| "js_le a NaN = False"
| "js_le NInf b = True"
| "js_le a PInf = True"
| "js_le (Fin x) (Fin y) = (x \<le> y)"
| "js_le PInf b = False"
| "js_le a NInf = False"

fun js_gt :: "jsnum \<Rightarrow> jsnum \<Rightarrow> bool" where
  "js_gt NaN b = False"
| "js_gt a NaN = False"
| "js_gt a b = (\<not> js_le a b)"

fun js_neg :: "jsnum \<Rightarrow> jsnum" where
  "js_neg (Fin x) = Fin (- x)"
| "js_neg NaN = NaN"
| "js_neg PInf = NInf"
| "js_neg NInf = PInf"

fun js_add :: "jsnum \<Rightarrow> jsnum \<Rightarrow> jsnum" where
  "js_add NaN b = NaN"
| "js_add a NaN = NaN"
| "js_add (Fin x) (Fin y) = double_of (x + y)"
| "js_add PInf NInf = NaN"
| "js_add NInf PInf = NaN"
| "js_add PInf b = PInf"
| "js_add NInf b = NInf"
| "js_add a PInf = PInf"
| "js_add a NInf = NInf"

definition js_sub :: "jsnum \<Rightarrow> jsnum \<Rightarrow> jsnum" where
  "js_sub a b = js_add a (js_neg b)"

fun js_sign :: "jsnum \<Rightarrow> rat" where
  "js_sign (Fin x) = sgn x"
| "js_sign PInf = 1"
| "js_sign NInf = - 1"
| "js_sign NaN = 0"

fun js_mul :: "jsnum \<Rightarrow> jsnum \<Rightarrow> jsnum" where
  "js_mul NaN b = NaN"
| "js_mul a NaN = NaN"
| "js_mul (Fin x) (Fin y) = double_of (x * y)"
| "js_mul a b = js_inf (js_sign a * js_sign b)"

fun js_div :: "jsnum \<Rightarrow> jsnum \<Rightarrow> jsnum" where
  "js_div NaN b = NaN"
| "js_div a NaN = NaN"
| "js_div (Fin x) (Fin y) = (if y = 0 then js_inf (sgn x) else double_of (x / y))"
| "js_div (Fin x) b = Fin 0"
| "js_div a (Fin y) = js_inf (js_sign a * (if y < 0 then - 1 else 1))"
| "js_div a b = NaN"

fun Math_abs :: "jsnum \<Rightarrow> jsnum" where
  "Math_abs (Fin x) = Fin \<bar>x\<bar>"
| "Math_abs NaN = NaN"
| "Math_abs PInf = PInf"
| "Math_abs NInf = PInf"

text \<open>\<open>Math.round\<close> rounds to the nearest integer, a tie towards plus infinity.\<close>

fun Math_round :: "jsnum \<Rightarrow> jsnum" where
  "Math_round (Fin x) = Fin (of_int \<lfloor>x + 1 / 2\<rfloor>)"
| "Math_round a = a"

text \<open>\<open>Math.max(...xs)\<close>: minus infinity on no arguments, NaN as soon as one argument is.\<close>

fun js_max :: "jsnum \<Rightarrow> jsnum \<Rightarrow> jsnum" where
  "js_max NaN b = NaN"
| "js_max a NaN = NaN"
| "js_max a b = (if js_le a b then b else a)"

definition Math_max :: "jsnum list \<Rightarrow> jsnum" where
  "Math_max xs = fold js_max xs NInf"

text \<open>
  \<open>[...arr].sort((a, b) => a - b)\<close>: a stable ascending sort. On a list without NaN the
  comparator is a total preorder and the result is fixed by the language; with a NaN in
  the list the order is left to the implementation, and the insertion sort here is one
  admissible choice.
\<close>

fun js_insort :: "jsnum \<Rightarrow> jsnum list \<Rightarrow> jsnum list" where
  "js_insort x [] = [x]"
| "js_insort x (y # ys) = (if js_le x y then x # y # ys else y # js_insort x ys)"

definition js_sort :: "jsnum list \<Rightarrow> jsnum list" where
  "js_sort xs = foldr js_insort xs []"

section \<open>Price aggregation (backend/oracle/price-fetcher.js)\<close>

definition MAX_DEVIATION_BPS :: jsnum where
  "MAX_DEVIATION_BPS = Fin 200"

definition MIN_SOURCES :: nat where
  "MIN_SOURCES = 2"

text \<open>
  A source is known by its name; its URL and its parse function decide, together with the
  network, what fetching and parsing it yields: either an exception with a message (a
  fetch error, the abort after the timeout, a malformed body) or the parsed number.
\<close>

definition SOURCES :: "string list" where
  "SOURCES = [''Binance'', ''Coinbase'', ''Kraken'', ''CoinGecko'']"

record source_result =
  sr_name :: string
  sr_price :: "jsnum option"
  sr_ok :: bool
  sr_error :: "string option"

definition fetchOne :: "(string \<Rightarrow> string + jsnum) \<Rightarrow> string \<Rightarrow> source_result" where
  "fetchOne fetch_parse source =
     (case fetch_parse source of
        Inl msg \<Rightarrow>
          \<lparr>sr_name = source, sr_price = None, sr_ok = False, sr_error = Some msg\<rparr>
      | Inr price \<Rightarrow>
          if \<not> isFinite price \<or> js_le price (Fin 0)
          then \<lparr>sr_name = source, sr_price = None, sr_ok = False,
                sr_error = Some ''invalid value''\<rparr>
          else \<lparr>sr_name = source, sr_price = Some price, sr_ok = True, sr_error = None\<rparr>)"

text \<open>Reading element \<open>i\<close> of an array: \<open>undefined\<close> out of range, which arithmetic turns into NaN.\<close>

definition js_at :: "jsnum list \<Rightarrow> int \<Rightarrow> jsnum" where
  "js_at s i = (if 0 \<le> i \<and> i < int (length s) then s ! nat i else NaN)"

definition median :: "jsnum list \<Rightarrow> jsnum" where
  "median arr =
     (let s = js_sort arr;
          m = int (length s) div 2
      in if length s mod 2 \<noteq> 0 then js_at s m
         else js_div (js_add (js_at s (m - 1)) (js_at s m)) (Fin 2))"

definition devBps :: "jsnum \<Rightarrow> jsnum \<Rightarrow> jsnum" where
  "devBps a b = Math_round (js_mul (js_div (Math_abs (js_sub a b)) b) (Fin 10000))"

text \<open>
  Thrown values: a plain \<open>Error\<close> with its message, the built-in \<open>TypeError\<close> and
  \<open>RangeError\<close>, and an error of the chain library with its \<open>code\<close> (such as
  \<open>CALL_EXCEPTION\<close> for a reverted call, \<open>NETWORK_ERROR\<close> or \<open>TIMEOUT\<close>) and message.
\<close>

datatype js_error =
    Error string
  | TypeError string
  | RangeError string
  | EthersError string string

text \<open>Template literals print a count in decimal (\<open>decimal\<close> is for numbers that are not negative); the dash of the messages is U+2014 in UTF-8.\<close>

definition digit :: "int \<Rightarrow> char" where
  "digit d = char_of (48 + d)"

function decimal :: "int \<Rightarrow> string" where
  "decimal n = (if n < 10 then [digit n] else decimal (n div 10) @ [digit (n mod 10)])"
  by pat_completeness auto
termination
  by (relation "measure (\<lambda>n. nat n)") auto

declare decimal.simps [simp del]

definition em_dash :: string where
  "em_dash = [char_of (0xE2 :: nat), char_of (0x80 :: nat), char_of (0x94 :: nat)]"

record aggregated =
  ag_price :: jsnum
  ag_sources :: "source_result list"
  ag_validSources :: "source_result list option"
  ag_spread :: jsnum
  ag_validCount :: nat
  ag_override :: bool

text \<open>The price of a result; \<open>null\<close> (a failed source) counts as 0 in arithmetic.\<close>

definition price_of :: "source_result \<Rightarrow> jsnum" where
  "price_of r = (case sr_price r of None \<Rightarrow> Fin 0 | Some p \<Rightarrow> p)"

definition fetchAggregatedPrice ::
  "(string \<Rightarrow> jsnum) \<Rightarrow> (string \<Rightarrow> string + jsnum) \<Rightarrow> string option \<Rightarrow> js_error + aggregated" where
  "fetchAggregatedPrice parseFloat fetch_parse overridePrice =
     (case overridePrice of
        Some s \<Rightarrow>
          (let p = parseFloat s
           in Inr \<lparr>ag_price = p,
                   ag_sources = [\<lparr>sr_name = ''OVERRIDE'', sr_price = Some p, sr_ok = True,
                                  sr_error = None\<rparr>],
                   ag_validSources = None, ag_spread = Fin 0, ag_validCount = 1,
                   ag_override = True\<rparr>)
      | None \<Rightarrow>
          (let results = map (fetchOne fetch_parse) SOURCES;
               successful = filter sr_ok results
           in if length successful < MIN_SOURCES
              then Inl (Error (''Only '' @ decimal (int (length successful)) @ '' sources responded '' @
                          em_dash @ '' refusing to submit''))
              else
                (let med1 = median (map price_of successful);
                     valid = filter (\<lambda>r. js_le (devBps (price_of r) med1) MAX_DEVIATION_BPS)
                               successful;
                     outliers = filter (\<lambda>r. js_gt (devBps (price_of r) med1) MAX_DEVIATION_BPS)
                                  successful
                 in if length valid < MIN_SOURCES
                    then Inl (Error (''Only '' @ decimal (int (length valid)) @
                                ('' valid sources after outlier filter '' @ em_dash @
                                 '' possible manipulation'')))
                    else
                      (let finalPrices = map price_of valid;
                           finalMedian = median finalPrices;
                           spread = Math_max (map (\<lambda>p. devBps p finalMedian) finalPrices)
                       in Inr \<lparr>ag_price = finalMedian, ag_sources = results,
                               ag_validSources = Some valid, ag_spread = spread,
                               ag_validCount = length valid, ag_override = False\<rparr>))))"

subsection \<open>The aggregation rule in the specification's words\<close>

text \<open>
  The definitions of this subsection follow the specification, over source names and the
  values of the sources, independently of the code above: the sources that respond with a
  finite positive value, the median of a list (the middle value, or the mean of the two
  middle values), the deviation of a value from a reference in basis points (rounded to
  the nearest integer, a tie upwards), the sources within 200 basis points of the median
  of all successful values, and the largest deviation of a list from its own median. The
  arithmetic is that of doubles, as in the code: a mean and a deviation are numbers with
  the rounding of each operation, and may be an infinity or NaN.
\<close>

fun ok_value :: "string + jsnum \<Rightarrow> rat option" where
  "ok_value (Inr (Fin x)) = (if 0 < x then Some x else None)"
| "ok_value other = None"

definition spec_successful :: "(string \<Rightarrow> string + jsnum) \<Rightarrow> string list" where
  "spec_successful fetch_parse = filter (\<lambda>s. ok_value (fetch_parse s) \<noteq> None) SOURCES"

definition spec_value :: "(string \<Rightarrow> string + jsnum) \<Rightarrow> string \<Rightarrow> rat" where
  "spec_value fetch_parse s = (case ok_value (fetch_parse s) of Some x \<Rightarrow> x | None \<Rightarrow> 0)"

definition spec_mean :: "rat \<Rightarrow> rat \<Rightarrow> jsnum" where
  "spec_mean a b = js_div (js_add (Fin a) (Fin b)) (Fin 2)"

definition spec_median :: "rat list \<Rightarrow> jsnum" where
  "spec_median xs =
     (let s = sort xs; n = length s
      in if odd n then Fin (s ! (n div 2)) else spec_mean (s ! (n div 2 - 1)) (s ! (n div 2)))"

definition spec_deviation_bps :: "rat \<Rightarrow> jsnum \<Rightarrow> jsnum" where
  "spec_deviation_bps p m =
     Math_round (js_mul (js_div (Math_abs (js_sub (Fin p) m)) m) (Fin 10000))"

definition ok_result :: "(string \<Rightarrow> string + jsnum) \<Rightarrow> string \<Rightarrow> source_result" where
  "ok_result fetch_parse s =
     \<lparr>sr_name = s, sr_price = Some (Fin (spec_value fetch_parse s)), sr_ok = True, sr_error = None\<rparr>"

definition spec_kept :: "(string \<Rightarrow> string + jsnum) \<Rightarrow> string list" where
  "spec_kept fetch_parse =
     (let m = spec_median (map (spec_value fetch_parse) (spec_successful fetch_parse))
      in filter (\<lambda>s. js_le (spec_deviation_bps (spec_value fetch_parse s) m) (Fin 200))
           (spec_successful fetch_parse))"

definition spec_outliers :: "(string \<Rightarrow> string + jsnum) \<Rightarrow> string list" where
  "spec_outliers fetch_parse =
     (let m = spec_median (map (spec_value fetch_parse) (spec_successful fetch_parse))
      in filter (\<lambda>s. js_gt (spec_deviation_bps (spec_value fetch_parse s) m) (Fin 200))
           (spec_successful fetch_parse))"

definition spec_spread :: "rat list \<Rightarrow> jsnum" where
  "spec_spread vs = Math_max (map (\<lambda>p. spec_deviation_bps p (spec_median vs)) vs)"

section \<open>Archive checksums (backend/greenfield/client.js)\<close>

type_synonym byte = "8 word"

type_synonym bytes = "byte list"

definition EC_DATA :: nat where
  "EC_DATA = 4"

definition EC_PARITY :: nat where
  "EC_PARITY = 2"

text \<open>
  SHA-256 is the platform's: the functions below take it as the parameter \<open>sha256\<close>, from
  a byte string to a 256-bit digest. \<open>digest_bytes\<close> is the \<open>Uint8Array\<close> of such a digest,
  its 32 bytes, most significant first.
\<close>

definition digest_bytes :: "256 word \<Rightarrow> bytes" where
  "digest_bytes h = map (\<lambda>i. ucast (drop_bit (8 * (31 - i)) h)) [0..<32]"

text \<open>
  \<open>Buffer.alloc(n, 0)\<close> and \<open>source.copy(target, 0, sourceStart, sourceEnd)\<close>, which returns
  here the target after the copy. The platform raises a \<open>RangeError\<close> when \<open>sourceStart\<close>
  lies beyond the end of the source, copies nothing when the target is empty or the range
  is, and never copies more than the target holds.
\<close>

definition Buffer_alloc :: "nat \<Rightarrow> bytes" where
  "Buffer_alloc n = replicate n 0"

definition Buffer_copy :: "bytes \<Rightarrow> bytes \<Rightarrow> nat \<Rightarrow> nat \<Rightarrow> js_error + bytes" where
  "Buffer_copy source target sourceStart sourceEnd =
     (if length source < sourceStart
      then Inl (RangeError ''The value of sourceStart is out of range'')
      else if length target = 0 \<or> sourceEnd \<le> sourceStart then Inr target
      else (let chunk = take (length target)
                          (take (sourceEnd - sourceStart) (drop sourceStart source))
            in Inr (chunk @ drop (length chunk) target)))"

text \<open>
  The first loop of \<open>manualChecksums\<close>, over the shard indices still to do: it stops at
  the first exception, and otherwise appends each shard to \<open>dataShards\<close> and its hash to
  \<open>checksums\<close>.
\<close>

fun data_shard_loop ::
  "(bytes \<Rightarrow> 256 word) \<Rightarrow> bytes \<Rightarrow> nat \<Rightarrow> nat list \<Rightarrow> bytes list \<Rightarrow> bytes list
     \<Rightarrow> js_error + bytes list \<times> bytes list" where
  "data_shard_loop sha256 bs shardSize [] dataShards checksums = Inr (dataShards, checksums)"
| "data_shard_loop sha256 bs shardSize (i # rest) dataShards checksums =
     (case Buffer_copy bs (Buffer_alloc shardSize) (i * shardSize)
             (min ((i + 1) * shardSize) (length bs)) of
        Inl e \<Rightarrow> Inl e
      | Inr shard \<Rightarrow>
          data_shard_loop sha256 bs shardSize rest (dataShards @ [shard])
            (checksums @ [digest_bytes (sha256 shard)]))"

text \<open>
  The parity shard number \<open>p\<close>: the byte-wise XOR of all data shards into a zero buffer
  (every shard has the length \<open>shardSize\<close>), and for \<open>p > 0\<close> the first byte XORed with
  \<open>p & 0xff\<close>; a write at index 0 of an empty buffer is ignored.
\<close>

definition parity_shard :: "nat \<Rightarrow> bytes list \<Rightarrow> nat \<Rightarrow> bytes" where
  "parity_shard shardSize dataShards p =
     (let parity = fold (\<lambda>shard parity. map2 (XOR) parity shard) dataShards
                     (Buffer_alloc shardSize)
      in if 0 < p
         then (case parity of [] \<Rightarrow> [] | first # rest \<Rightarrow> (first XOR (of_nat p AND 0xff)) # rest)
         else parity)"

definition manualChecksums :: "(bytes \<Rightarrow> 256 word) \<Rightarrow> bytes \<Rightarrow> js_error + bytes list" where
  "manualChecksums sha256 bs =
     (let checksums = [digest_bytes (sha256 bs)];
          shardSize = (length bs + EC_DATA - 1) div EC_DATA
      in case data_shard_loop sha256 bs shardSize [0..<EC_DATA] [] checksums of
           Inl e \<Rightarrow> Inl e
         | Inr (dataShards, checksums) \<Rightarrow>
             Inr (checksums @
                  map (\<lambda>p. digest_bytes (sha256 (parity_shard shardSize dataShards p)))
                    [0..<EC_PARITY]))"

text \<open>
  What the SDK helpers may hand back as one checksum, and \<open>toUint8Array\<close>: typed arrays and
  buffers are taken as they are, a string is read as hexadecimal after an optional
  \<open>0x\<close> (\<open>Buffer.from(hex, "hex")\<close> decodes pairs of digits and stops at the first pair that
  is not hexadecimal), an array of numbers is reduced modulo 256.
\<close>

datatype checksum_value = U8 bytes | Buf bytes | Str string | ArrayLike "int list"

definition hex_value :: "char \<Rightarrow> nat option" where
  "hex_value c =
     (let n = of_char c :: nat
      in if 48 \<le> n \<and> n \<le> 57 then Some (n - 48)
         else if 97 \<le> n \<and> n \<le> 102 then Some (n - 87)
         else if 65 \<le> n \<and> n \<le> 70 then Some (n - 55)
         else None)"

fun Buffer_from_hex :: "string \<Rightarrow> bytes" where
  "Buffer_from_hex (a # b # rest) =
     (case (hex_value a, hex_value b) of
        (Some h, Some l) \<Rightarrow> of_nat (16 * h + l) # Buffer_from_hex rest
      | other \<Rightarrow> [])"
| "Buffer_from_hex rest = []"

fun toUint8Array :: "checksum_value \<Rightarrow> bytes" where
  "toUint8Array (U8 c) = c"
| "toUint8Array (Buf c) = c"
| "toUint8Array (Str c) = Buffer_from_hex (if take 2 c = ''0x'' then drop 2 c else c)"
| "toUint8Array (ArrayLike c) = map of_int c"

text \<open>
  The SDK as \<open>computeExpectChecksums\<close> sees it: \<open>require\<close> throws (no SDK), or the module
  has either helper or not; a helper throws (also when it cannot be constructed or
  called), returns something that is not an array, or returns an array.
\<close>

datatype helper_result = HelperThrows | NotArray | Array "checksum_value list"

record sdk_module =
  NodeAdapterModule :: "(bytes \<Rightarrow> helper_result) option"
  getCheckSums :: "(bytes \<Rightarrow> helper_result) option"

definition computeExpectChecksums ::
  "(bytes \<Rightarrow> 256 word) \<Rightarrow> sdk_module option \<Rightarrow> bytes \<Rightarrow> js_error + bytes list" where
  "computeExpectChecksums sha256 sdk_required bs =
     (let second =
            (\<lambda>sdk. case getCheckSums sdk of
                      None \<Rightarrow> manualChecksums sha256 bs
                    | Some helper \<Rightarrow>
                        (case helper bs of
                           HelperThrows \<Rightarrow> manualChecksums sha256 bs
                         | NotArray \<Rightarrow> manualChecksums sha256 bs
                         | Array checksums \<Rightarrow>
                             if length checksums = 7 then Inr (map toUint8Array checksums)
                             else manualChecksums sha256 bs))
      in case sdk_required of
           None \<Rightarrow> manualChecksums sha256 bs
         | Some sdk \<Rightarrow>
             (case NodeAdapterModule sdk of
                None \<Rightarrow> second sdk
              | Some helper \<Rightarrow>
                  (case helper bs of
                     HelperThrows \<Rightarrow> manualChecksums sha256 bs
                   | NotArray \<Rightarrow> second sdk
                   | Array checksums \<Rightarrow>
                       if length checksums = 7 then Inr (map toUint8Array checksums)
                       else second sdk)))"

subsection \<open>The checksum scheme in the specification's words\<close>

text \<open>
  Shard \<open>i\<close> of a payload cut into four shards of equal size: the bytes from \<open>i * n\<close> up to
  \<open>(i + 1) * n\<close>, where \<open>n\<close> is a quarter of the length rounded up, filled up with zeros.
\<close>

definition spec_shard_size :: "bytes \<Rightarrow> nat" where
  "spec_shard_size bs = (length bs + 3) div 4"

definition spec_shard :: "bytes \<Rightarrow> nat \<Rightarrow> bytes" where
  "spec_shard bs i =
     (let n = spec_shard_size bs; part = take n (drop (i * n) bs)
      in part @ replicate (n - length part) 0)"

definition spec_xor :: "bytes \<Rightarrow> bytes \<Rightarrow> bytes" where
  "spec_xor xs ys = map2 (XOR) xs ys"

definition spec_parity :: "bytes \<Rightarrow> bytes" where
  "spec_parity bs =
     spec_xor (spec_xor (spec_xor (spec_shard bs 0) (spec_shard bs 1)) (spec_shard bs 2))
       (spec_shard bs 3)"

definition spec_flip_first :: "bytes \<Rightarrow> bytes" where
  "spec_flip_first xs = (case xs of [] \<Rightarrow> [] | x # rest \<Rightarrow> (x XOR 1) # rest)"




section \<open>Effects: the world outside the agent, states and traces\<close>

text \<open>
  Everything the agent does beyond computing is an interaction with the world: a network
  call, a read of the clock or of the file system, a call of the proof engine, a sleep.
  Each interaction is recorded as an event of the trace, and the world's answer to an
  interaction is a function of the moment it happens at, which is the number of events
  before it. A state is the trace so far together with the number of random bytes consumed.
  Log lines, to the console and to the log file of the day, are left out: writing one is
  taken to succeed. The fields that only measure elapsed time are left out too.
\<close>

record groth_proof =
  pi_a :: "int list"
  pi_b :: "int list list"
  pi_c :: "int list"

record submit_args =
  sa_price :: int
  sa_timestamp :: int
  sa_commitment :: string
  sa_proof_a :: "int list"
  sa_proof_b :: "int list list"
  sa_proof_c :: "int list"
  sa_greenfieldRef :: "256 word"

record receipt =
  blockNumber :: nat
  gasUsed :: nat

record storage_provider =
  sp_moniker :: "string option"
  sp_addr :: "string option"

datatype event =
    Sleep nat
  | GetBlockNumber string
  | FetchSources
  | ExistsSync string
  | ReadClock
  | FullProve int int int
  | ReadVerificationKey
  | ExportSolidityCallData groth_proof "int list"
  | Groth16Verify string "int list" groth_proof
  | HeadBucket
  | GetStorageProviders
  | CreateBucket string
  | Simulate
  | Broadcast
  | CreateObject string "bytes list"
  | UploadObject string bytes
  | MkdirSync string
  | WriteFile string string
  | SubmitPriceWithProof submit_args
  | TxWait string

record state =
  trace :: "event list"
  rng_pos :: nat

text \<open>
  The outcome of a step: it returns a value, it throws, or it never returns (a loop that
  does not end).
\<close>

datatype 'a outcome = Returns 'a | Throws js_error | NoReturn

type_synonym 'a io = "state \<Rightarrow> 'a outcome \<times> state"

definition ret :: "'a \<Rightarrow> 'a io" where
  "ret v s = (Returns v, s)"

definition throw :: "js_error \<Rightarrow> 'a io" where
  "throw e s = (Throws e, s)"

text \<open>Sequencing: an exception of the first step, or its not returning, ends the whole.\<close>

definition and_then :: "'a io \<Rightarrow> ('a \<Rightarrow> 'b io) \<Rightarrow> 'b io" where
  "and_then m k s =
     (case m s of
        (Returns v, s') \<Rightarrow> k v s'
      | (Throws e, s') \<Rightarrow> (Throws e, s')
      | (NoReturn, s') \<Rightarrow> (NoReturn, s'))"

text \<open>\<open>try { m } catch (e) { h e }\<close>.\<close>

definition try_catch :: "'a io \<Rightarrow> (js_error \<Rightarrow> 'a io) \<Rightarrow> 'a io" where
  "try_catch m h s =
     (case m s of
        (Returns v, s') \<Rightarrow> (Returns v, s')
      | (Throws e, s') \<Rightarrow> h e s'
      | (NoReturn, s') \<Rightarrow> (NoReturn, s'))"

text \<open>A computation without effect that may throw.\<close>

definition lift :: "js_error + 'a \<Rightarrow> 'a io" where
  "lift r s = (case r of Inl e \<Rightarrow> (Throws e, s) | Inr v \<Rightarrow> (Returns v, s))"

text \<open>An interaction: the event is recorded, the world answers for the moment of the call.\<close>

definition call :: "event \<Rightarrow> (nat \<Rightarrow> js_error + 'a) \<Rightarrow> 'a io" where
  "call ev answer s =
     (case answer (length (trace s)) of
        Inl e \<Rightarrow> (Throws e, s\<lparr>trace := trace s @ [ev]\<rparr>)
      | Inr v \<Rightarrow> (Returns v, s\<lparr>trace := trace s @ [ev]\<rparr>))"

definition ask :: "event \<Rightarrow> (nat \<Rightarrow> 'a) \<Rightarrow> 'a io" where
  "ask ev answer = call ev (\<lambda>t. Inr (answer t))"

text \<open>
  The platform and its libraries (\<open>parseFloat\<close>, \<open>toFixed(2)\<close>, the text of a number, SHA-256,
  Keccak-256,
  \<open>JSON.stringify\<close>, \<open>toISOString\<close>), the configuration (wallet, contract address, paths
  of the circuit files), and the answers of the outside to each interaction.
\<close>

record archive_record =
  ar_price :: int
  ar_priceUSD :: jsnum
  ar_timestamp :: int
  ar_commitment :: string
  ar_proof :: groth_proof
  ar_publicSignals :: "int list"
  ar_salt :: int
  ar_sources :: "string list option"
  ar_txHash :: string
  ar_contract :: string
  ar_storedAt :: string
  ar_submitter :: string

record submission =
  sub_priceUSD :: jsnum
  sub_commitment :: string
  sub_txHash :: string
  sub_block :: nat
  sub_zkVerified :: bool
  sub_greenfieldRef :: "256 word"
  sub_onGreenfield :: bool
  sub_sources :: "string list option"

record world =
  w_parseFloat :: "string \<Rightarrow> jsnum"
  w_toFixed2 :: "jsnum \<Rightarrow> string"
  w_Number_toString :: "jsnum \<Rightarrow> string"
  w_sha256 :: "bytes \<Rightarrow> 256 word"
  w_keccak256 :: "bytes \<Rightarrow> 256 word"
  w_JSON_stringify :: "archive_record \<Rightarrow> string"
  w_JSON_stringify_submission :: "submission \<Rightarrow> string"
  w_toISOString :: "int \<Rightarrow> string"
  w_wallet_address :: string
  w_ORACLE_ADDRESS :: string
  w_WASM_PATH :: string
  w_ZKEY_PATH :: string
  w_BUCKET :: string
  w_LOCAL_DIR :: string
  w_LOG_DIR :: string
  w_Date_now :: "nat \<Rightarrow> int"
  w_random_byte :: "nat \<Rightarrow> byte"
  w_getBlockNumber :: "string \<Rightarrow> nat \<Rightarrow> js_error + nat"
  w_fetch_parse :: "nat \<Rightarrow> string \<Rightarrow> string + jsnum"
  w_existsSync :: "string \<Rightarrow> nat \<Rightarrow> bool"
  w_fullProve :: "int \<Rightarrow> int \<Rightarrow> int \<Rightarrow> nat \<Rightarrow> js_error + groth_proof \<times> int list"
  w_exportSolidityCallData :: "groth_proof \<Rightarrow> int list \<Rightarrow> nat \<Rightarrow> js_error + string"
  w_readVerificationKey :: "nat \<Rightarrow> js_error + string"
  w_groth16_verify :: "string \<Rightarrow> int list \<Rightarrow> groth_proof \<Rightarrow> nat \<Rightarrow> js_error + bool"
  w_sdk :: "sdk_module option"
  w_sdk_client :: bool
  w_headBucket :: "nat \<Rightarrow> js_error + unit"
  w_getStorageProviders :: "nat \<Rightarrow> js_error + storage_provider list"
  w_createBucket :: "string \<Rightarrow> nat \<Rightarrow> js_error + unit"
  w_simulate :: "nat \<Rightarrow> js_error + unit"
  w_broadcast :: "nat \<Rightarrow> js_error + string option"
  w_createObject :: "string \<Rightarrow> bytes list \<Rightarrow> nat \<Rightarrow> js_error + unit"
  w_uploadObject :: "string \<Rightarrow> bytes \<Rightarrow> nat \<Rightarrow> js_error + unit"
  w_mkdirSync :: "string \<Rightarrow> nat \<Rightarrow> js_error + unit"
  w_writeFileSync :: "string \<Rightarrow> string \<Rightarrow> nat \<Rightarrow> js_error + unit"
  w_submitPriceWithProof :: "submit_args \<Rightarrow> nat \<Rightarrow> js_error + string"
  w_tx_wait :: "string \<Rightarrow> nat \<Rightarrow> js_error + receipt"

text \<open>Strings: \<open>BigInt.toString()\<close>, \<open>toString(16)\<close>, \<open>padStart\<close>, \<open>toLowerCase\<close>, \<open>includes\<close>.\<close>

definition BigInt_toString :: "int \<Rightarrow> string" where
  "BigInt_toString i = (if i < 0 then ''-'' @ decimal (- i) else decimal i)"

definition hex_digit :: "int \<Rightarrow> char" where
  "hex_digit d = (if d < 10 then char_of (48 + d) else char_of (87 + d))"

function to_hex :: "int \<Rightarrow> string" where
  "to_hex n = (if n < 16 then [hex_digit n] else to_hex (n div 16) @ [hex_digit (n mod 16)])"
  by pat_completeness auto
termination
  by (relation "measure (\<lambda>n. nat n)") auto

declare to_hex.simps [simp del]

definition BigInt_toString16 :: "int \<Rightarrow> string" where
  "BigInt_toString16 i = (if i < 0 then ''-'' @ to_hex (- i) else to_hex i)"

definition padStart :: "nat \<Rightarrow> char \<Rightarrow> string \<Rightarrow> string" where
  "padStart n c s = replicate (n - length s) c @ s"

definition toLowerCase :: "string \<Rightarrow> string" where
  "toLowerCase s =
     map (\<lambda>c. if 65 \<le> (of_char c :: nat) \<and> (of_char c :: nat) \<le> 90
              then char_of ((of_char c :: nat) + 32) else c) s"

fun starts_with :: "string \<Rightarrow> string \<Rightarrow> bool" where
  "starts_with s [] = True"
| "starts_with [] (p # ps) = False"
| "starts_with (c # cs) (p # ps) = (c = p \<and> starts_with cs ps)"

fun js_includes :: "string \<Rightarrow> string \<Rightarrow> bool" where
  "js_includes [] sub = (sub = [])"
| "js_includes (c # cs) sub = (starts_with (c # cs) sub \<or> js_includes cs sub)"

text \<open>\<open>ethers.toUtf8Bytes\<close> and \<open>Buffer.from(string)\<close> on a string of bytes.\<close>

definition toUtf8Bytes :: "string \<Rightarrow> bytes" where
  "toUtf8Bytes s = map of_char s"

section \<open>Proof generation (backend/zk/groth16-prover.js)\<close>

definition FIELD_MODULUS :: int where
  "FIELD_MODULUS =
     21888242871839275222246405745257275088548364400416034343698204186575808495617"

text \<open>
  \<open>crypto.randomBytes(n)\<close> takes the next \<open>n\<close> bytes of the world's random stream.
  \<open>BigInt("0x" + buf.toString("hex"))\<close> is the number the bytes spell in base 256, most
  significant byte first.
\<close>

definition randomBytes :: "(nat \<Rightarrow> byte) \<Rightarrow> nat \<Rightarrow> nat \<Rightarrow> bytes" where
  "randomBytes random_byte pos n = map random_byte [pos..<pos + n]"

definition BigInt_of_hex_bytes :: "bytes \<Rightarrow> int" where
  "BigInt_of_hex_bytes bs = foldl (\<lambda>acc b. acc * 256 + uint b) 0 bs"

text \<open>
  The loop \<open>do { salt = ... } while (salt >= FIELD_MODULUS)\<close>, from the position \<open>pos\<close> of
  the random stream: the salt and the position after the last draw, or \<open>None\<close> where the
  loop does not end.
\<close>

partial_function (option) draw_salt :: "(nat \<Rightarrow> byte) \<Rightarrow> nat \<Rightarrow> (int \<times> nat) option" where
  "draw_salt random_byte pos =
     (if FIELD_MODULUS \<le> BigInt_of_hex_bytes (randomBytes random_byte pos 31)
      then draw_salt random_byte (pos + 31)
      else Some (BigInt_of_hex_bytes (randomBytes random_byte pos 31), pos + 31))"

declare draw_salt.simps [code]

record proof_data =
  pd_proof :: groth_proof
  pd_publicSignals :: "int list"
  pd_commitment :: string
  pd_salt :: int
  pd_price :: int
  pd_timestamp :: int
  pd_priceUSD :: jsnum
  pd_calldataRaw :: string
  pd_sources :: "string list option"

text \<open>
  \<open>checkCircuitFiles\<close>: the two files of the circuit must exist.
\<close>

definition checkCircuitFiles :: "world \<Rightarrow> unit io" where
  "checkCircuitFiles w =
     and_then (ask (ExistsSync (w_WASM_PATH w)) (w_existsSync w (w_WASM_PATH w))) (\<lambda>wasm.
       if \<not> wasm
       then throw (Error (''Circuit WASM not found at '' @ w_WASM_PATH w @
                          [char_of (10 :: nat)] @ ''Run setup first: bash circuits/setup.sh''))
       else
     and_then (ask (ExistsSync (w_ZKEY_PATH w)) (w_existsSync w (w_ZKEY_PATH w))) (\<lambda>zkey.
       if \<not> zkey
       then throw (Error (''ZKey not found at '' @ w_ZKEY_PATH w @
                          [char_of (10 :: nat)] @ ''Run setup first: bash circuits/setup.sh''))
       else ret ()))"

text \<open>
  \<open>BigInt(Math.round(priceUSD * 1e8))\<close>: \<open>BigInt\<close> raises a \<open>RangeError\<close> on NaN, on the
  infinities and on a number that is not an integer; the message names the number.
\<close>

definition not_an_integer :: "world \<Rightarrow> jsnum \<Rightarrow> js_error" where
  "not_an_integer w x =
     RangeError (''The number '' @ w_Number_toString w x @
                 '' cannot be converted to a BigInt because it is not an integer'')"

definition BigInt_of_number :: "world \<Rightarrow> jsnum \<Rightarrow> js_error + int" where
  "BigInt_of_number w x =
     (case x of
        Fin q \<Rightarrow> if q = of_int \<lfloor>q\<rfloor> then Inr \<lfloor>q\<rfloor> else Inl (not_an_integer w x)
      | other \<Rightarrow> Inl (not_an_integer w x))"

text \<open>
  \<open>generateProof(priceUSD, ts)\<close>. The proof data hold the price, the timestamp and the
  salt as the integers whose decimal strings the source stores; \<open>BigInt\<close> of such a string
  is that integer again. The calldata are exported by the proof engine, which may throw;
  \<open>parseCalldata\<close> never throws, and what it returns, the JSON text of the proof and the
  date of generation, which the agent does not read, are left out, as are the two readings
  of the clock that time the proof engine for a log line.
\<close>

definition generateProof :: "world \<Rightarrow> jsnum \<Rightarrow> int option \<Rightarrow> proof_data io" where
  "generateProof w priceUSD ts =
     and_then (checkCircuitFiles w) (\<lambda>u.
     and_then (lift (BigInt_of_number w (Math_round (js_mul priceUSD (Fin 100000000))))) (\<lambda>price.
     and_then (case ts of
                 Some t \<Rightarrow> if t \<noteq> 0 then ret t
                           else ask ReadClock (\<lambda>t. w_Date_now w t div 1000)
               | None \<Rightarrow> ask ReadClock (\<lambda>t. w_Date_now w t div 1000)) (\<lambda>timestamp.
     and_then (\<lambda>s. case draw_salt (w_random_byte w) (rng_pos s) of
                      None \<Rightarrow> (NoReturn, s)
                    | Some (salt, pos) \<Rightarrow> (Returns salt, s\<lparr>rng_pos := pos\<rparr>)) (\<lambda>salt.
     and_then (call (FullProve price timestamp salt) (w_fullProve w price timestamp salt))
       (\<lambda>(proof, publicSignals).
     and_then (case publicSignals of
                 [] \<Rightarrow> throw (TypeError ''Cannot convert undefined to a BigInt'')
               | c # rest \<Rightarrow> ret (''0x'' @ padStart 64 (CHR ''0'') (BigInt_toString16 c)))
       (\<lambda>commitment.
     and_then (call (ExportSolidityCallData proof publicSignals)
                 (w_exportSolidityCallData w proof publicSignals)) (\<lambda>calldata.
     ret \<lparr>pd_proof = proof, pd_publicSignals = publicSignals, pd_commitment = commitment,
          pd_salt = salt, pd_price = price, pd_timestamp = timestamp, pd_priceUSD = priceUSD,
          pd_calldataRaw = calldata, pd_sources = None\<rparr>)))))))"

text \<open>\<open>verifyProof(proof, publicSignals)\<close>.\<close>

definition verifyProof :: "world \<Rightarrow> groth_proof \<Rightarrow> int list \<Rightarrow> bool io" where
  "verifyProof w proof publicSignals =
     and_then (checkCircuitFiles w) (\<lambda>u.
     and_then (call ReadVerificationKey (w_readVerificationKey w)) (\<lambda>vkey.
     call (Groth16Verify vkey publicSignals proof) (w_groth16_verify w vkey publicSignals proof)))"

section \<open>Archiving (backend/greenfield/client.js)\<close>

text \<open>
  The storage providers as \<open>extractSpList\<close> hands them on, each with its moniker, if it
  has one, and the address \<open>extractSpAddr\<close> finds in it, if any. A provider counts as real
  when its moniker, in lower case, contains neither "test" nor "qa"; one without a moniker
  counts as real.
\<close>

definition real_sp :: "storage_provider \<Rightarrow> bool" where
  "real_sp sp =
     (case sp_moniker sp of
        None \<Rightarrow> True
      | Some m \<Rightarrow> \<not> js_includes (toLowerCase m) ''test'' \<and> \<not> js_includes (toLowerCase m) ''qa'')"

definition primarySp :: "storage_provider list \<Rightarrow> storage_provider option" where
  "primarySp spList =
     (let realSps = filter real_sp spList
      in case (if 0 < length realSps then realSps else spList) of
           [] \<Rightarrow> None
         | sp # rest \<Rightarrow> Some sp)"

definition extractSpAddr :: "storage_provider option \<Rightarrow> string option" where
  "extractSpAddr sp =
     (case sp of
        None \<Rightarrow> None
      | Some p \<Rightarrow> (case sp_addr p of None \<Rightarrow> None | Some a \<Rightarrow> if a = [] then None else Some a))"

definition broadcastTx :: "world \<Rightarrow> string option io" where
  "broadcastTx w = and_then (call Simulate (w_simulate w)) (\<lambda>simulateInfo. call Broadcast (w_broadcast w))"

definition ensureBucket :: "world \<Rightarrow> bool io" where
  "ensureBucket w =
     (if \<not> w_sdk_client w then ret False
      else
        try_catch (and_then (call HeadBucket (w_headBucket w)) (\<lambda>u. ret True))
          (\<lambda>e1.
             try_catch
               (and_then (call GetStorageProviders (w_getStorageProviders w)) (\<lambda>spList.
                  case extractSpAddr (primarySp spList) of
                    None \<Rightarrow> throw (Error ''SP addr not found'')
                  | Some spAddr \<Rightarrow>
                      and_then (call (CreateBucket spAddr) (w_createBucket w spAddr)) (\<lambda>tx.
                      and_then (broadcastTx w) (\<lambda>res. ret True))))
               (\<lambda>e2. ret False)))"

record upload_result =
  up_objectName :: string
  up_greenfieldRef :: "256 word"
  up_onGreenfield :: bool
  up_localPath :: string
  up_viewUrl :: string

definition path_join :: "string \<Rightarrow> string \<Rightarrow> string" where
  "path_join dir file = dir @ ''/'' @ file"

text \<open>
  \<open>uploadProof(proofData, txHash, wallet)\<close>. The wallet is part of the configuration and
  never null. The steps between \<open>try\<close> and \<open>catch\<close> are \<open>remote_upload\<close>.
\<close>

definition remote_upload :: "world \<Rightarrow> string \<Rightarrow> bytes \<Rightarrow> bool io" where
  "remote_upload w objectName bs =
     and_then (call GetStorageProviders (w_getStorageProviders w)) (\<lambda>spList.
       case extractSpAddr (primarySp spList) of
         None \<Rightarrow> throw (Error ''SP addr not found'')
       | Some spAddr \<Rightarrow>
           and_then (lift (computeExpectChecksums (w_sha256 w) (w_sdk w) bs)) (\<lambda>expectChecksums.
           and_then (call (CreateObject objectName expectChecksums)
                       (w_createObject w objectName expectChecksums)) (\<lambda>createTx.
           and_then (broadcastTx w) (\<lambda>createRes.
           and_then (call (UploadObject objectName bs) (w_uploadObject w objectName bs)) (\<lambda>u.
           ret True)))))"

definition uploadProof :: "world \<Rightarrow> proof_data \<Rightarrow> string \<Rightarrow> upload_result io" where
  "uploadProof w proofData txHash =
     (let objectName = ''veris-proof-'' @ BigInt_toString (pd_timestamp proofData) @ ''-'' @
                         take 10 txHash @ ''.json''
      in
      and_then (ask ReadClock (\<lambda>t. w_toISOString w (w_Date_now w t))) (\<lambda>storedAt.
        let record = \<lparr>ar_price = pd_price proofData, ar_priceUSD = pd_priceUSD proofData,
                      ar_timestamp = pd_timestamp proofData,
                      ar_commitment = pd_commitment proofData, ar_proof = pd_proof proofData,
                      ar_publicSignals = pd_publicSignals proofData, ar_salt = pd_salt proofData,
                      ar_sources = pd_sources proofData, ar_txHash = txHash,
                      ar_contract = w_ORACLE_ADDRESS w, ar_storedAt = storedAt,
                      ar_submitter = w_wallet_address w\<rparr>;
            greenfieldRef = w_keccak256 w (toUtf8Bytes objectName);
            bs = toUtf8Bytes (w_JSON_stringify w record)
        in
        and_then (call (MkdirSync (w_LOCAL_DIR w)) (w_mkdirSync w (w_LOCAL_DIR w))) (\<lambda>u.
        and_then (call (WriteFile (path_join (w_LOCAL_DIR w) objectName) (w_JSON_stringify w record))
                    (w_writeFileSync w (path_join (w_LOCAL_DIR w) objectName)
                       (w_JSON_stringify w record))) (\<lambda>u.
        and_then (if w_sdk_client w
                  then try_catch (remote_upload w objectName bs) (\<lambda>e. ret False)
                  else ret False) (\<lambda>onGreenfield.
        ret \<lparr>up_objectName = objectName, up_greenfieldRef = greenfieldRef,
             up_onGreenfield = onGreenfield,
             up_localPath = path_join (w_LOCAL_DIR w) objectName,
             up_viewUrl = ''https://testnet.greenfield.bnbchain.org/buckets/'' @ w_BUCKET w @
                         ''/'' @ objectName\<rparr>)))))"

section \<open>The agent (backend/oracle/agent.js)\<close>

definition RPC_LIST :: "string list" where
  "RPC_LIST =
     [''https://data-seed-prebsc-1-s1.binance.org:8545'',
      ''https://data-seed-prebsc-2-s1.binance.org:8545'',
      ''https://data-seed-prebsc-1-s2.binance.org:8545'',
      ''https://bsc-testnet.drpc.org'']"

text \<open>\<open>getProvider\<close>, over the endpoints still to try; a provider is known by its URL.\<close>

fun getProvider_from :: "world \<Rightarrow> string list \<Rightarrow> string io" where
  "getProvider_from w [] = throw (Error ''All RPC endpoints unreachable'')"
| "getProvider_from w (rpc # rest) =
     try_catch (and_then (call (GetBlockNumber rpc) (w_getBlockNumber w rpc)) (\<lambda>n. ret rpc))
       (\<lambda>e. getProvider_from w rest)"

definition getProvider :: "world \<Rightarrow> string io" where
  "getProvider w = getProvider_from w RPC_LIST"

text \<open>
  \<open>retry(fn, attempts, label)\<close>, from the loop counter \<open>i\<close> on. Whatever \<open>fn\<close> throws is
  caught; on the last attempt it is thrown again, before that the loop sleeps
  \<open>1000 * 2^i\<close> milliseconds and goes on. A loop that makes no attempt at all returns
  \<open>undefined\<close>, here \<open>None\<close>.
\<close>

definition sleep :: "nat \<Rightarrow> unit io" where
  "sleep ms = call (Sleep ms) (\<lambda>t. Inr ())"

function retry_from :: "'a io \<Rightarrow> nat \<Rightarrow> nat \<Rightarrow> 'a option io" where
  "retry_from fn attempts i =
     (if i \<le> attempts
      then try_catch (and_then fn (\<lambda>v. ret (Some v)))
             (\<lambda>e. if i = attempts then throw e
                   else and_then (sleep (1000 * 2 ^ i)) (\<lambda>u. retry_from fn attempts (i + 1)))
      else ret None)"
  by pat_completeness auto
termination
  by (relation "measure (\<lambda>(fn, attempts, i). Suc attempts - i)") auto

declare retry_from.simps [simp del]

definition retry :: "'a io \<Rightarrow> nat \<Rightarrow> 'a option io" where
  "retry fn attempts = retry_from fn attempts 1"

text \<open>Using a value that may be \<open>undefined\<close>: reading a property of \<open>undefined\<close> throws.\<close>

definition defined :: "'a option \<Rightarrow> 'a io" where
  "defined v =
     (case v of
        None \<Rightarrow> throw (TypeError ''Cannot read properties of undefined'')
      | Some x \<Rightarrow> ret x)"

text \<open>Element \<open>i\<close> of an array, handed to \<open>BigInt\<close> or indexed again: \<open>undefined\<close> throws.\<close>

definition element :: "'a list \<Rightarrow> nat \<Rightarrow> js_error + 'a" where
  "element xs i =
     (if i < length xs then Inr (xs ! i)
      else Inl (TypeError ''Cannot convert undefined to a BigInt''))"

definition sum_bind :: "js_error + 'a \<Rightarrow> ('a \<Rightarrow> js_error + 'b) \<Rightarrow> js_error + 'b" where
  "sum_bind r k = (case r of Inl e \<Rightarrow> Inl e | Inr v \<Rightarrow> k v)"

text \<open>Step 5 of \<open>submitOnce\<close>: the three parts of the proof as the contract takes them.\<close>

definition parse_proof :: "groth_proof \<Rightarrow> js_error + int list \<times> int list list \<times> int list" where
  "parse_proof proof =
     sum_bind (element (pi_a proof) 0) (\<lambda>a0.
     sum_bind (element (pi_a proof) 1) (\<lambda>a1.
     sum_bind (element (pi_b proof) 0) (\<lambda>b0.
     sum_bind (element b0 1) (\<lambda>b01.
     sum_bind (element b0 0) (\<lambda>b00.
     sum_bind (element (pi_b proof) 1) (\<lambda>b1.
     sum_bind (element b1 1) (\<lambda>b11.
     sum_bind (element b1 0) (\<lambda>b10.
     sum_bind (element (pi_c proof) 0) (\<lambda>c0.
     sum_bind (element (pi_c proof) 1) (\<lambda>c1.
     Inr ([a0, a1], [[b01, b00], [b11, b10]], [c0, c1])))))))))))"

definition source_summary :: "world \<Rightarrow> source_result \<Rightarrow> string" where
  "source_summary w s =
     (if sr_ok s then sr_name s @ '':$'' @ w_toFixed2 w (price_of s) else sr_name s @ '':fail'')"

text \<open>
  \<open>submitOnce(overridePrice)\<close>, one full cycle. With an override no source is fetched.
\<close>

definition submitOnce :: "world \<Rightarrow> string option \<Rightarrow> submission io" where
  "submitOnce w overridePrice =
     and_then (and_then (retry (getProvider w) 3) defined) (\<lambda>provider.
     and_then (and_then
                 (retry (case overridePrice of
                           Some p \<Rightarrow> lift (fetchAggregatedPrice (w_parseFloat w) (\<lambda>src. Inl []) overridePrice)
                         | None \<Rightarrow> call FetchSources
                                     (\<lambda>t. fetchAggregatedPrice (w_parseFloat w) (w_fetch_parse w t) None))
                    3) defined) (\<lambda>priceResult.
     and_then (and_then (retry (generateProof w (ag_price priceResult) None) 2) defined) (\<lambda>generated.
       let proofData = generated\<lparr>pd_sources := Some (map (source_summary w) (ag_sources priceResult))\<rparr>
       in
     and_then (verifyProof w (pd_proof proofData) (pd_publicSignals proofData)) (\<lambda>localOk.
       if \<not> localOk
       then throw (Error (''Local proof verification FAILED '' @ em_dash @ '' aborting submission''))
       else
     and_then (lift (parse_proof (pd_proof proofData))) (\<lambda>(proof_a, proof_b, proof_c).
     and_then (try_catch
                 (and_then (ensureBucket w) (\<lambda>b.
                  and_then (uploadProof w proofData
                              (''pending-'' @ BigInt_toString (pd_timestamp proofData))) (\<lambda>r.
                  ret (up_greenfieldRef r, up_onGreenfield r))))
                 (\<lambda>e. ret (w_keccak256 w
                              (toUtf8Bytes (''veris-proof-'' @ BigInt_toString (pd_timestamp proofData))),
                            False))) (\<lambda>gfResult.
       let args = \<lparr>sa_price = pd_price proofData, sa_timestamp = pd_timestamp proofData,
                    sa_commitment = pd_commitment proofData, sa_proof_a = proof_a,
                    sa_proof_b = proof_b, sa_proof_c = proof_c,
                    sa_greenfieldRef = fst gfResult\<rparr>
       in
     and_then (and_then (retry (call (SubmitPriceWithProof args) (w_submitPriceWithProof w args)) 3)
                 defined) (\<lambda>tx_hash.
     and_then (call (TxWait tx_hash) (w_tx_wait w tx_hash)) (\<lambda>receipt.
     and_then (try_catch (and_then (uploadProof w proofData tx_hash) (\<lambda>r. ret ())) (\<lambda>e. ret ())) (\<lambda>u.
       let result = \<lparr>sub_priceUSD = ag_price priceResult, sub_commitment = pd_commitment proofData,
                      sub_txHash = tx_hash, sub_block = blockNumber receipt, sub_zkVerified = True,
                      sub_greenfieldRef = fst gfResult, sub_onGreenfield = snd gfResult,
                      sub_sources = pd_sources proofData\<rparr>
       in
     and_then (call (WriteFile (path_join (w_LOG_DIR w)
                                  (''submission-'' @ BigInt_toString (pd_timestamp proofData) @ ''.json''))
                       (w_JSON_stringify_submission w result))
                 (w_writeFileSync w
                    (path_join (w_LOG_DIR w)
                       (''submission-'' @ BigInt_toString (pd_timestamp proofData) @ ''.json''))
                    (w_JSON_stringify_submission w result))) (\<lambda>u.
     ret result))))))))))"

definition initial_state :: state where
  "initial_state = \<lparr>trace = [], rng_pos = 0\<rparr>"

section \<open>The stages of a cycle, and notions about traces\<close>

text \<open>
  The stages of \<open>submitOnce\<close>, named so that properties can be stated stage by stage:
  \<open>prepare\<close> is steps 1 to 3 (provider, price, proof), followed in \<open>submitOnce\<close> by the
  local verification (step 4) and the parsing of the proof (step 5); \<open>archive_pending\<close> is
  step 6, \<open>send\<close> step 7, \<open>conclude\<close> steps 8 to the end. That \<open>submitOnce\<close> is their
  composition is the lemma \<open>submitOnce_stages\<close>.
\<close>

definition fetch_step :: "world \<Rightarrow> string option \<Rightarrow> aggregated io" where
  "fetch_step w overridePrice =
     (case overridePrice of
        Some p \<Rightarrow> lift (fetchAggregatedPrice (w_parseFloat w) (\<lambda>src. Inl []) overridePrice)
      | None \<Rightarrow> call FetchSources
                  (\<lambda>t. fetchAggregatedPrice (w_parseFloat w) (w_fetch_parse w t) None))"

definition prepare :: "world \<Rightarrow> string option \<Rightarrow> (aggregated \<times> proof_data) io" where
  "prepare w overridePrice =
     and_then (and_then (retry (getProvider w) 3) defined) (\<lambda>provider.
     and_then (and_then (retry (fetch_step w overridePrice) 3) defined) (\<lambda>priceResult.
     and_then (and_then (retry (generateProof w (ag_price priceResult) None) 2) defined) (\<lambda>generated.
     ret (priceResult,
          generated\<lparr>pd_sources := Some (map (source_summary w) (ag_sources priceResult))\<rparr>))))"

definition pending_tag :: "proof_data \<Rightarrow> string" where
  "pending_tag proofData = ''pending-'' @ BigInt_toString (pd_timestamp proofData)"

definition fallback_ref :: "world \<Rightarrow> proof_data \<Rightarrow> 256 word" where
  "fallback_ref w proofData =
     w_keccak256 w (toUtf8Bytes (''veris-proof-'' @ BigInt_toString (pd_timestamp proofData)))"

definition archive_pending :: "world \<Rightarrow> proof_data \<Rightarrow> (256 word \<times> bool) io" where
  "archive_pending w proofData =
     try_catch
       (and_then (ensureBucket w) (\<lambda>b.
        and_then (uploadProof w proofData (pending_tag proofData)) (\<lambda>r.
        ret (up_greenfieldRef r, up_onGreenfield r))))
       (\<lambda>e. ret (fallback_ref w proofData, False))"

definition submit_args_of ::
  "proof_data \<Rightarrow> int list \<times> int list list \<times> int list \<Rightarrow> 256 word \<Rightarrow> submit_args" where
  "submit_args_of proofData parsed ref =
     \<lparr>sa_price = pd_price proofData, sa_timestamp = pd_timestamp proofData,
      sa_commitment = pd_commitment proofData, sa_proof_a = fst parsed,
      sa_proof_b = fst (snd parsed), sa_proof_c = snd (snd parsed), sa_greenfieldRef = ref\<rparr>"

definition send :: "world \<Rightarrow> submit_args \<Rightarrow> string io" where
  "send w args =
     and_then (retry (call (SubmitPriceWithProof args) (w_submitPriceWithProof w args)) 3) defined"

definition submission_of ::
  "aggregated \<Rightarrow> proof_data \<Rightarrow> 256 word \<times> bool \<Rightarrow> string \<Rightarrow> receipt \<Rightarrow> submission" where
  "submission_of priceResult proofData gfResult tx_hash rcpt =
     \<lparr>sub_priceUSD = ag_price priceResult, sub_commitment = pd_commitment proofData,
      sub_txHash = tx_hash, sub_block = blockNumber rcpt, sub_zkVerified = True,
      sub_greenfieldRef = fst gfResult, sub_onGreenfield = snd gfResult,
      sub_sources = pd_sources proofData\<rparr>"

definition submission_log :: "world \<Rightarrow> proof_data \<Rightarrow> string" where
  "submission_log w proofData =
     path_join (w_LOG_DIR w)
       (''submission-'' @ BigInt_toString (pd_timestamp proofData) @ ''.json'')"

definition conclude ::
  "world \<Rightarrow> aggregated \<Rightarrow> proof_data \<Rightarrow> 256 word \<times> bool \<Rightarrow> string \<Rightarrow> submission io" where
  "conclude w priceResult proofData gfResult tx_hash =
     and_then (call (TxWait tx_hash) (w_tx_wait w tx_hash)) (\<lambda>rcpt.
     and_then (try_catch (and_then (uploadProof w proofData tx_hash) (\<lambda>r. ret ())) (\<lambda>e. ret ())) (\<lambda>u.
     and_then (call (WriteFile (submission_log w proofData)
                       (w_JSON_stringify_submission w
                          (submission_of priceResult proofData gfResult tx_hash rcpt)))
                 (w_writeFileSync w (submission_log w proofData)
                    (w_JSON_stringify_submission w
                       (submission_of priceResult proofData gfResult tx_hash rcpt)))) (\<lambda>u.
     ret (submission_of priceResult proofData gfResult tx_hash rcpt))))"

definition verification_failed :: js_error where
  "verification_failed =
     Error (''Local proof verification FAILED '' @ em_dash @ '' aborting submission'')"

definition after_verification :: "world \<Rightarrow> aggregated \<Rightarrow> proof_data \<Rightarrow> submission io" where
  "after_verification w priceResult proofData =
     and_then (lift (parse_proof (pd_proof proofData))) (\<lambda>parsed.
     and_then (archive_pending w proofData) (\<lambda>gfResult.
     and_then (send w (submit_args_of proofData parsed (fst gfResult))) (\<lambda>tx_hash.
     conclude w priceResult proofData gfResult tx_hash)))"

text \<open>
  The events a step adds to the trace, and steps that add only events of a given kind.
\<close>

definition new_events :: "state \<Rightarrow> state \<Rightarrow> event list" where
  "new_events s s' = drop (length (trace s)) (trace s')"

fun is_submit :: "event \<Rightarrow> bool" where
  "is_submit (SubmitPriceWithProof args) = True"
| "is_submit e = False"

fun is_chain :: "event \<Rightarrow> bool" where
  "is_chain (SubmitPriceWithProof args) = True"
| "is_chain (TxWait h) = True"
| "is_chain e = False"

fun is_wait :: "event \<Rightarrow> bool" where
  "is_wait (TxWait h) = True"
| "is_wait e = False"

fun is_remote :: "event \<Rightarrow> bool" where
  "is_remote HeadBucket = True"
| "is_remote GetStorageProviders = True"
| "is_remote (CreateBucket a) = True"
| "is_remote Simulate = True"
| "is_remote Broadcast = True"
| "is_remote (CreateObject n c) = True"
| "is_remote (UploadObject n b) = True"
| "is_remote e = False"

fun is_prepare_event :: "event \<Rightarrow> bool" where
  "is_prepare_event (Sleep n) = True"
| "is_prepare_event (GetBlockNumber rpc) = True"
| "is_prepare_event FetchSources = True"
| "is_prepare_event (ExistsSync p) = True"
| "is_prepare_event ReadClock = True"
| "is_prepare_event (FullProve price timestamp salt) = True"
| "is_prepare_event (ExportSolidityCallData proof publicSignals) = True"
| "is_prepare_event e = False"

fun is_verify_event :: "event \<Rightarrow> bool" where
  "is_verify_event (ExistsSync p) = True"
| "is_verify_event ReadVerificationKey = True"
| "is_verify_event (Groth16Verify vkey publicSignals proof) = True"
| "is_verify_event e = False"

fun is_local_verification :: "event \<Rightarrow> bool" where
  "is_local_verification (Groth16Verify vkey publicSignals proof) = True"
| "is_local_verification e = False"

fun is_archive_event :: "event \<Rightarrow> bool" where
  "is_archive_event ReadClock = True"
| "is_archive_event (MkdirSync d) = True"
| "is_archive_event (WriteFile p c) = True"
| "is_archive_event e = is_remote e"

definition only :: "(event \<Rightarrow> bool) \<Rightarrow> 'a io \<Rightarrow> bool" where
  "only P m = (\<forall>s. \<exists>evs. trace (snd (m s)) = trace s @ evs \<and> list_all P evs)"

text \<open>Steps that return or throw, whatever the state.\<close>

definition total :: "'a io \<Rightarrow> bool" where
  "total m = (\<forall>s. fst (m s) \<noteq> NoReturn)"

text \<open>
  The parts of \<open>uploadProof\<close> that later statements name: the object's name, the record
  that is stored, and the entry that is returned.
\<close>

definition object_name :: "proof_data \<Rightarrow> string \<Rightarrow> string" where
  "object_name proofData txHash =
     ''veris-proof-'' @ BigInt_toString (pd_timestamp proofData) @ ''-'' @ take 10 txHash @ ''.json''"

definition record_of :: "world \<Rightarrow> proof_data \<Rightarrow> string \<Rightarrow> string \<Rightarrow> archive_record" where
  "record_of w proofData txHash storedAt =
     \<lparr>ar_price = pd_price proofData, ar_priceUSD = pd_priceUSD proofData,
      ar_timestamp = pd_timestamp proofData,
      ar_commitment = pd_commitment proofData, ar_proof = pd_proof proofData,
      ar_publicSignals = pd_publicSignals proofData, ar_salt = pd_salt proofData,
      ar_sources = pd_sources proofData, ar_txHash = txHash,
      ar_contract = w_ORACLE_ADDRESS w, ar_storedAt = storedAt,
      ar_submitter = w_wallet_address w\<rparr>"

definition entry_of :: "world \<Rightarrow> string \<Rightarrow> bool \<Rightarrow> upload_result" where
  "entry_of w objectName onGreenfield =
     \<lparr>up_objectName = objectName, up_greenfieldRef = w_keccak256 w (toUtf8Bytes objectName),
      up_onGreenfield = onGreenfield,
      up_localPath = path_join (w_LOCAL_DIR w) objectName,
      up_viewUrl = ''https://testnet.greenfield.bnbchain.org/buckets/'' @ w_BUCKET w @
                  ''/'' @ objectName\<rparr>"

section \<open>Concrete inputs\<close>

text \<open>
  Scenario 6 of the specification: the four sources answer 350.00, 351.00, 349.50 and
  500.00.
\<close>

definition scenario_prices :: "string \<Rightarrow> string + jsnum" where
  "scenario_prices s =
     (if s = ''Binance'' then Inr (Fin 350)
      else if s = ''Coinbase'' then Inr (Fin 351)
      else if s = ''Kraken'' then Inr (Fin (699 / 2))
      else Inr (Fin 500))"

text \<open>Two sources answer 100 and 200, the other two time out.\<close>

definition two_far_apart :: "string \<Rightarrow> string + jsnum" where
  "two_far_apart s =
     (if s = ''Binance'' then Inr (Fin 100)
      else if s = ''Coinbase'' then Inr (Fin 200)
      else Inl ''The operation was aborted'')"

text \<open>One source answers, one answers NaN, one answers a negative value, one fails.\<close>

definition one_answer :: "string \<Rightarrow> string + jsnum" where
  "one_answer s =
     (if s = ''Binance'' then Inr (Fin 350)
      else if s = ''Coinbase'' then Inr NaN
      else if s = ''Kraken'' then Inr (Fin (- 5))
      else Inl ''fetch failed'')"

text \<open>
  Four quotes of which two lie 100.25 from the median 5000: as doubles, 100.25 / 5000 * 10000
  is 200.49999999999997, which rounds to 200 basis points.
\<close>

definition close_quotes :: "string \<Rightarrow> string + jsnum" where
  "close_quotes s =
     (if s = ''Binance'' then Inr (Fin (19599 / 4))
      else if s = ''Coinbase'' then Inr (Fin 5000)
      else if s = ''Kraken'' then Inr (Fin 5000)
      else Inr (Fin (20401 / 4)))"

text \<open>
  A nine-byte payload, an SDK whose second helper answers with seven one-byte checksums,
  and stand-ins for the functions of the platform in the concrete examples (no statement
  depends on which functions they are).
\<close>

definition toy_digest :: "bytes \<Rightarrow> 256 word" where
  "toy_digest bs = of_nat (length bs)"

definition no_number :: "string \<Rightarrow> jsnum" where
  "no_number s = NaN"






text \<open>
  A world in which every interaction succeeds: the sources answer as in scenario 6, the
  proof engine returns a fixed proof and accepts it, every endpoint, the storage network
  and the chain respond. The other worlds differ from it in one answer each.
\<close>

definition example_proof :: groth_proof where
  "example_proof = \<lparr>pi_a = [11, 12, 1], pi_b = [[21, 22], [23, 24], [1, 0]], pi_c = [31, 32, 1]\<rparr>"

definition toy_keccak :: "bytes \<Rightarrow> 256 word" where
  "toy_keccak bs = word_of_int (BigInt_of_hex_bytes bs)"

definition calm_world :: world where
  "calm_world =
     \<lparr>w_parseFloat = no_number,
      w_toFixed2 = (\<lambda>x. ''0.00''),
      w_Number_toString = (\<lambda>x. ''NaN''),
      w_sha256 = toy_digest,
      w_keccak256 = toy_keccak,
      w_JSON_stringify = (\<lambda>r. ''{record '' @ ar_txHash r @ ''}''),
      w_JSON_stringify_submission = (\<lambda>r. ''{submission '' @ sub_txHash r @ ''}''),
      w_toISOString = (\<lambda>ms. ''2023-11-14T22:13:20.000Z''),
      w_wallet_address = ''0xwallet'',
      w_ORACLE_ADDRESS = ''0xoracle'',
      w_WASM_PATH = ''circuits/build/price_commitment_js/price_commitment.wasm'',
      w_ZKEY_PATH = ''circuits/build/price_commitment_final.zkey'',
      w_BUCKET = ''verisafe-oracle-proofs'',
      w_LOCAL_DIR = ''greenfield-proofs'',
      w_LOG_DIR = ''agent/logs'',
      w_Date_now = (\<lambda>t. 1700000000000),
      w_random_byte = (\<lambda>i. of_nat i),
      w_getBlockNumber = (\<lambda>rpc t. Inr 100),
      w_fetch_parse = (\<lambda>t. scenario_prices),
      w_existsSync = (\<lambda>path t. True),
      w_fullProve = (\<lambda>price timestamp salt t. Inr (example_proof, [777, price, timestamp])),
      w_exportSolidityCallData = (\<lambda>proof publicSignals t. Inr ''[0x0b,0x0c]''),
      w_readVerificationKey = (\<lambda>t. Inr ''vkey''),
      w_groth16_verify = (\<lambda>vkey publicSignals proof t. Inr True),
      w_sdk = None,
      w_sdk_client = True,
      w_headBucket = (\<lambda>t. Inr ()),
      w_getStorageProviders =
        (\<lambda>t. Inr [\<lparr>sp_moniker = Some ''QA-node'', sp_addr = Some ''0xsp1''\<rparr>,
                  \<lparr>sp_moniker = Some ''NodeReal'', sp_addr = Some ''0xsp2''\<rparr>]),
      w_createBucket = (\<lambda>spAddr t. Inr ()),
      w_simulate = (\<lambda>t. Inr ()),
      w_broadcast = (\<lambda>t. Inr (Some ''0xgf'')),
      w_createObject = (\<lambda>name checksums t. Inr ()),
      w_uploadObject = (\<lambda>name body t. Inr ()),
      w_mkdirSync = (\<lambda>dir t. Inr ()),
      w_writeFileSync = (\<lambda>path content t. Inr ()),
      w_submitPriceWithProof = (\<lambda>args t. Inr ''0x5e1f0123456789abcdef''),
      w_tx_wait = (\<lambda>tx t. Inr \<lparr>blockNumber = 42, gasUsed = 300000\<rparr>)\<rparr>"

text \<open>The proof engine rejects the proof it has just produced.\<close>

definition rejecting_world :: world where
  "rejecting_world = calm_world\<lparr>w_groth16_verify := (\<lambda>vkey publicSignals proof t. Inr False)\<rparr>"

text \<open>The contract reverts every submission.\<close>

definition reverting_world :: world where
  "reverting_world =
     calm_world\<lparr>w_submitPriceWithProof :=
                  (\<lambda>args t. Inl (EthersError ''CALL_EXCEPTION'' ''execution reverted''))\<rparr>"

text \<open>The transaction is sent, and reverts when it is mined.\<close>

definition unconfirmed_world :: world where
  "unconfirmed_world =
     calm_world\<lparr>w_tx_wait :=
                  (\<lambda>tx t. Inl (EthersError ''CALL_EXCEPTION'' ''transaction execution reverted''))\<rparr>"

text \<open>The storage network is unreachable: every call to it fails.\<close>

definition offline_storage_world :: world where
  "offline_storage_world =
     calm_world\<lparr>w_headBucket := (\<lambda>t. Inl (Error ''connect ETIMEDOUT'')),
                w_getStorageProviders := (\<lambda>t. Inl (Error ''connect ETIMEDOUT''))\<rparr>"

text \<open>The local directory of the archive cannot be created.\<close>

definition readonly_dir_world :: world where
  "readonly_dir_world =
     calm_world\<lparr>w_mkdirSync := (\<lambda>dir t. Inl (Error ''EACCES: permission denied''))\<rparr>"

text \<open>The proof data of the calm world's cycle, and what it submits and returns.\<close>

definition calm_proof_data :: proof_data where
  "calm_proof_data =
     \<lparr>pd_proof = example_proof, pd_publicSignals = [777, 35000000000, 1700000000],
      pd_commitment = ''0x0000000000000000000000000000000000000000000000000000000000000309'',
      pd_salt = 6955983830576953300627822532721063284149725145715624041201556132732190,
      pd_price = 35000000000, pd_timestamp = 1700000000, pd_priceUSD = Fin 350,
      pd_calldataRaw = ''[0x0b,0x0c]'',
      pd_sources = Some [''Binance:$0.00'', ''Coinbase:$0.00'', ''Kraken:$0.00'',
                         ''CoinGecko:$0.00'']\<rparr>"

definition calm_ref :: "256 word" where
  "calm_ref = toy_keccak (toUtf8Bytes ''veris-proof-1700000000-pending-17.json'')"

definition calm_args :: submit_args where
  "calm_args =
     \<lparr>sa_price = 35000000000, sa_timestamp = 1700000000,
      sa_commitment = ''0x0000000000000000000000000000000000000000000000000000000000000309'',
      sa_proof_a = [11, 12], sa_proof_b = [[22, 21], [24, 23]], sa_proof_c = [31, 32],
      sa_greenfieldRef = calm_ref\<rparr>"

definition calm_submission :: submission where
  "calm_submission =
     \<lparr>sub_priceUSD = Fin 350,
      sub_commitment = ''0x0000000000000000000000000000000000000000000000000000000000000309'',
      sub_txHash = ''0x5e1f0123456789abcdef'', sub_block = 42, sub_zkVerified = True,
      sub_greenfieldRef = calm_ref, sub_onGreenfield = True,
      sub_sources = Some [''Binance:$0.00'', ''Coinbase:$0.00'', ''Kraken:$0.00'',
                          ''CoinGecko:$0.00'']\<rparr>"

text \<open>What the cycle returns where the local directory cannot be created.\<close>

definition fallback_submission :: submission where
  "fallback_submission =
     calm_submission\<lparr>sub_greenfieldRef := toy_keccak (toUtf8Bytes ''veris-proof-1700000000''),
                      sub_onGreenfield := False\<rparr>"

text \<open>
  The events of the cycle in which the proof engine rejects the proof, up to the call of
  the verification.
\<close>

definition calm_signals :: "int list" where
  "calm_signals = [777, 35000000000, 1700000000]"

definition rejected_before :: "event list" where
  "rejected_before =
     [GetBlockNumber ''https://data-seed-prebsc-1-s1.binance.org:8545'',
      FetchSources,
      ExistsSync ''circuits/build/price_commitment_js/price_commitment.wasm'',
      ExistsSync ''circuits/build/price_commitment_final.zkey'',
      ReadClock,
      FullProve 35000000000 1700000000
        6955983830576953300627822532721063284149725145715624041201556132732190,
      ExportSolidityCallData example_proof calm_signals,
      ExistsSync ''circuits/build/price_commitment_js/price_commitment.wasm'',
      ExistsSync ''circuits/build/price_commitment_final.zkey'',
      ReadVerificationKey]"

section \<open>Properties of double arithmetic\<close>

subsection \<open>The rounding of doubles\<close>

text \<open>
  \<open>pow2\<close> is the power of two; \<open>exponent_of\<close> finds the binade of a value in the normal
  range and is \<open>- 1022\<close> below it; \<open>double_of\<close> is within half a unit in the last place
  of its argument, and leaves the integers of magnitude below \<open>2 ^ 53\<close> as they are.
\<close>

lemma pow2_nonneg_power: "pow2_nonneg k = 2 ^ nat k"
proof (induction k rule: pow2_nonneg.induct)
  case (1 k)
  show ?case
  proof (cases "k \<le> 0")
    case True
    then show ?thesis by (subst pow2_nonneg.simps) simp
  next
    case False
    then have ih: "pow2_nonneg (k div 2) = 2 ^ nat (k div 2)" using 1 by (cases "even k") auto
    show ?thesis
    proof (cases "even k")
      case True
      then have "nat k = 2 * nat (k div 2)" using False by (auto elim!: evenE)
      then have "(2::rat) ^ nat k = (2 ^ nat (k div 2))\<^sup>2" by (simp add: power_mult power2_eq_square flip: power_add mult_2)
      then show ?thesis using False True ih by (subst pow2_nonneg.simps) simp
    next
      case odd: False
      then have "nat k = Suc (2 * nat (k div 2))" using False by (auto elim!: oddE simp: nat_add_distrib nat_mult_distrib)
      then have "(2::rat) ^ nat k = 2 * (2 ^ nat (k div 2))\<^sup>2" by (simp add: power2_eq_square flip: power_add mult_2)
      then show ?thesis using False odd ih by (subst pow2_nonneg.simps) simp
    qed
  qed
qed

lemma pow2_powi: "pow2 k = 2 powi k"
  by (simp add: pow2_def pow2_nonneg_power power_int_def field_simps)

lemma exponent_between_bounds:
  "lo < hi \<Longrightarrow> pow2 lo \<le> x \<Longrightarrow> x < pow2 hi
   \<Longrightarrow> pow2 (exponent_between lo hi x) \<le> x \<and> x < pow2 (exponent_between lo hi x + 1)"
proof (induction lo hi x rule: exponent_between.induct)
  case (1 lo hi x)
  show ?case
  proof (cases "hi \<le> lo + 1")
    case True
    then have h: "hi = lo + 1" using "1.prems" by simp
    have "exponent_between lo hi x = lo" using True by (subst exponent_between.simps) simp
    then show ?thesis using "1.prems" unfolding h by simp
  next
    case False
    let ?mid = "(lo + hi) div 2"
    have m: "lo < ?mid" "?mid < hi" using False by auto
    show ?thesis
    proof (cases "pow2 ?mid \<le> x")
      case True
      from "1.IH"(1) [OF False True m(2) True "1.prems"(3)] show ?thesis
        using False True by (subst (1 2) exponent_between.simps) simp
    next
      case F: False
      then have "x < pow2 ?mid" by simp
      from "1.IH"(2) [OF False F m(1) "1.prems"(2) this] show ?thesis
        using False F by (subst (1 2) exponent_between.simps) simp
    qed
  qed
qed

lemma exponent_of_bounds:
  assumes "pow2 (- 1022) \<le> x" and "x < pow2 1024"
  shows "pow2 (exponent_of x) \<le> x \<and> x < pow2 (exponent_of x + 1)"
  unfolding exponent_of_def using exponent_between_bounds [OF _ assms] by simp

lemma exponent_between_range:
  "lo < hi \<Longrightarrow> lo \<le> exponent_between lo hi x \<and> exponent_between lo hi x < hi"
proof (induction lo hi x rule: exponent_between.induct)
  case (1 lo hi x)
  show ?case
  proof (cases "hi \<le> lo + 1")
    case True
    then show ?thesis using "1.prems" by (subst (1 2) exponent_between.simps) simp
  next
    case False
    let ?mid = "(lo + hi) div 2"
    have m: "lo < ?mid" "?mid < hi" using False by auto
    show ?thesis
    proof (cases "pow2 ?mid \<le> x")
      case True
      from "1.IH"(1) [OF False True m(2)] show ?thesis
        using False True m by (subst (1 2) exponent_between.simps) simp
    next
      case F: False
      from "1.IH"(2) [OF False F m(1)] show ?thesis
        using False F m by (subst (1 2) exponent_between.simps) simp
    qed
  qed
qed

lemma exponent_of_subnormal:
  assumes "x < pow2 (- 1022)"
  shows "exponent_of x = - 1022"
proof -
  have "lo < hi \<Longrightarrow> x < pow2 lo \<Longrightarrow> exponent_between lo hi x = lo" for lo hi
  proof (induction lo hi x rule: exponent_between.induct)
    case (1 lo hi x)
    show ?case
    proof (cases "hi \<le> lo + 1")
      case True
      then show ?thesis by (subst exponent_between.simps) simp
    next
      case False
      let ?mid = "(lo + hi) div 2"
      have m: "lo < ?mid" using False by auto
      have "pow2 lo \<le> pow2 ?mid" using m by (simp add: pow2_powi power_int_increasing)
      then have F: "\<not> pow2 ?mid \<le> x" using "1.prems"(2) by simp
      from "1.IH"(2) [OF False F m "1.prems"(2)] show ?thesis
        using False F by (subst exponent_between.simps) simp
    qed
  qed
  from this [of "- 1022" 1024] assms show ?thesis by (simp add: exponent_of_def)
qed

lemma round_half_even_error: "\<bar>of_int (round_half_even y) - y\<bar> \<le> 1 / 2"
proof -
  have "of_int \<lfloor>y\<rfloor> \<le> y" "y < of_int \<lfloor>y\<rfloor> + 1" by linarith+
  then show ?thesis
    unfolding round_half_even_def Let_def by (auto simp: abs_le_iff)
qed


lemma pow2_pos: "0 < pow2 k"
  by (simp add: pow2_powi)

lemma pow2_Suc: "pow2 (k + 1) = 2 * pow2 k"
  by (simp add: pow2_powi power_int_add)

lemma double_of_error:
  assumes "double_of x = Fin y"
  shows "\<bar>y - x\<bar> \<le> pow2 (exponent_of \<bar>x\<bar> - 52) / 2"
proof (cases "x = 0")
  case True
  then show ?thesis using assms pow2_pos [of "exponent_of 0 - 52"] by (simp add: double_of_def)
next
  case False
  define q where "q = pow2 (exponent_of \<bar>x\<bar> - 52)"
  define n where "n = round_half_even (\<bar>x\<bar> / q)"
  have q: "0 < q" by (simp add: q_def pow2_pos)
  have y: "y = sgn x * (of_int n * q)"
    using assms False unfolding double_of_def Let_def q_def [symmetric] n_def [symmetric]
    by (auto simp: js_inf_def split: if_splits)
  have "y - x = sgn x * (of_int n * q - \<bar>x\<bar>)"
    unfolding y by (simp add: algebra_simps flip: abs_sgn) (metis mult.commute mult_sgn_abs)
  then have "\<bar>y - x\<bar> = \<bar>of_int n * q - \<bar>x\<bar>\<bar>"
    using False by (simp add: abs_mult abs_sgn_eq)
  also have "of_int n * q - \<bar>x\<bar> = q * (of_int n - \<bar>x\<bar> / q)"
    using q by (simp add: field_simps)
  also have "\<bar>q * (of_int n - \<bar>x\<bar> / q)\<bar> = q * \<bar>of_int n - \<bar>x\<bar> / q\<bar>"
    using q by (simp add: abs_mult)
  also have "\<dots> \<le> q * (1 / 2)"
    using round_half_even_error [of "\<bar>x\<bar> / q"] q unfolding n_def
    by (intro mult_left_mono) auto
  finally show ?thesis by (simp add: q_def)
qed

lemma round_half_even_of_int: "round_half_even (of_int n) = n"
  by (simp add: round_half_even_def)

lemma double_of_int:
  assumes "\<bar>n\<bar> < 2 ^ 53"
  shows "double_of (of_int n) = Fin (of_int n)"
proof (cases "n = 0")
  case True
  then show ?thesis by (simp add: double_of_def)
next
  case False
  define x :: rat where "x = of_int \<bar>n\<bar>"
  define e where "e = exponent_of x"
  have x1: "1 \<le> x" using False by (simp add: x_def)
  have x2: "x < 2 ^ 53" using assms unfolding x_def by (metis of_int_less_numeral_power_cancel_iff)
  have lo: "pow2 (- 1022) \<le> x"
  proof -
    have "pow2 (- 1022) \<le> pow2 0" unfolding pow2_powi by (rule power_int_increasing) auto
    then show ?thesis using x1 by (simp add: pow2_powi)
  qed
  have hi: "x < pow2 1024"
  proof -
    have "pow2 53 \<le> pow2 1024" unfolding pow2_powi by (rule power_int_increasing) auto
    then show ?thesis using x2 by (simp add: pow2_powi)
  qed
  from exponent_of_bounds [OF lo hi] have b: "pow2 e \<le> x" "x < pow2 (e + 1)"
    by (simp_all add: e_def)
  have e52: "e \<le> 52"
  proof (rule ccontr)
    assume "\<not> e \<le> 52"
    then have "pow2 53 \<le> pow2 e" unfolding pow2_powi by (intro power_int_increasing) auto
    then show False using b(1) x2 by (simp add: pow2_powi)
  qed
  define k where "k = nat (52 - e)"
  have q: "pow2 (e - 52) = 1 / 2 ^ k"
    using e52 by (simp add: pow2_powi k_def power_int_def field_simps)
  have "x / pow2 (e - 52) = of_int (\<bar>n\<bar> * 2 ^ k)"
    by (simp add: q x_def)
  then have r: "round_half_even (x / pow2 (e - 52)) = \<bar>n\<bar> * 2 ^ k"
    by (simp only: round_half_even_of_int)
  have again: "of_int (\<bar>n\<bar> * 2 ^ k) * pow2 (e - 52) = x"
    by (simp add: q x_def)
  have ax: "\<bar>of_int n :: rat\<bar> = x" by (simp add: x_def)
  have "double_of (of_int n) = Fin (sgn (of_int n) * x)"
    using False hi unfolding double_of_def Let_def ax e_def [symmetric] r again
    by simp
  moreover have "sgn (of_int n :: rat) * x = of_int n"
    by (simp add: x_def flip: of_int_abs) (metis mult.commute mult_sgn_abs of_int_abs)
  ultimately show ?thesis by simp
qed

section \<open>Properties of the price aggregation\<close>

subsection \<open>Rounding never yields NaN\<close>

lemma js_inf_sgn: "x \<noteq> 0 \<Longrightarrow> js_inf (sgn x) \<noteq> NaN"
  by (simp add: js_inf_def sgn_if)

lemma double_of_not_NaN: "double_of x \<noteq> NaN"
  by (simp add: double_of_def Let_def js_inf_sgn)

lemma js_le_NaN [simp]: "\<not> js_le NaN b" "\<not> js_le a NaN"
  by (cases a; simp)+

lemma js_gt_iff: "a \<noteq> NaN \<Longrightarrow> b \<noteq> NaN \<Longrightarrow> js_gt a b = (\<not> js_le a b)"
  by (cases a; cases b) simp_all

lemma js_gt_not_le: "js_gt a b \<Longrightarrow> \<not> js_le a b"
  by (cases a; cases b) simp_all

subsection \<open>The code's list functions on finite values\<close>

lemma js_insort_Fin: "js_insort (Fin x) (map Fin ys) = map Fin (insort x ys)"
  by (induction ys) auto

lemma js_sort_Fin: "js_sort (map Fin xs) = map Fin (sort xs)"
  unfolding js_sort_def sort_key_def
  by (induction xs) (auto simp: js_insort_Fin)

lemma median_Fin:
  assumes "xs \<noteq> []"
  shows "median (map Fin xs) = spec_median xs"
proof -
  let ?s = "sort xs"
  have len: "length ?s = length xs" by simp
  have pos: "0 < length xs" using assms by simp
  show ?thesis
  proof (cases "odd (length xs)")
    case True
    then have "length xs div 2 < length xs" using pos by simp
    moreover have "int (length xs) div 2 = int (length xs div 2)" by (simp add: zdiv_int)
    ultimately show ?thesis using True
      by (simp add: median_def spec_median_def js_sort_Fin js_at_def Let_def odd_iff_mod_2_eq_one)
  next
    case False
    then have "2 \<le> length xs" using pos by (cases "length xs"; cases "length xs - 1") auto
    then have a: "length xs div 2 < length xs" and b: "1 \<le> length xs div 2" by auto
    have m: "int (length xs) div 2 = int (length xs div 2)" by (simp add: zdiv_int)
    have c: "int (length xs div 2) - 1 = int (length xs div 2 - 1)" using b by (simp add: of_nat_diff)
    have d: "length xs div 2 - 1 < length xs" using a by simp
    show ?thesis using False a d
      by (simp add: median_def spec_median_def spec_mean_def js_sort_Fin js_at_def Let_def m c
               del: of_nat_diff js_add.simps js_div.simps)
  qed
qed

lemma devBps_Fin: "devBps (Fin a) m = spec_deviation_bps a m"
  by (simp add: devBps_def spec_deviation_bps_def)

lemma fetchOne_cases:
  "fetchOne f s = (if ok_value (f s) \<noteq> None then ok_result f s
                   else \<lparr>sr_name = s, sr_price = None, sr_ok = False,
                          sr_error = Some (case f s of Inl msg \<Rightarrow> msg | Inr p \<Rightarrow> ''invalid value'')\<rparr>)"
proof (cases "f s")
  case (Inl msg)
  then show ?thesis by (simp add: fetchOne_def)
next
  case (Inr p)
  then show ?thesis
    by (cases p) (auto simp: fetchOne_def ok_result_def spec_value_def)
qed

lemma successful_eq:
  "filter sr_ok (map (fetchOne f) L) = map (ok_result f) (filter (\<lambda>s. ok_value (f s) \<noteq> None) L)"
  by (induction L) (auto simp: fetchOne_cases ok_result_def)

lemma price_of_ok_result: "price_of (ok_result f s) = Fin (spec_value f s)"
  by (simp add: price_of_def ok_result_def)

lemma spec_value_pos: "ok_value (f s) \<noteq> None \<Longrightarrow> 0 < spec_value f s"
proof (cases "f s")
  case (Inl a) then show "ok_value (f s) \<noteq> None \<Longrightarrow> ?thesis" by simp
next
  case (Inr p) then show "ok_value (f s) \<noteq> None \<Longrightarrow> ?thesis"
    by (cases p) (auto simp: spec_value_def split: if_splits)
qed

lemma valid_eq:
  "filter (\<lambda>r. js_le (devBps (price_of r) m) MAX_DEVIATION_BPS) (map (ok_result f) L)
     = map (ok_result f) (filter (\<lambda>s. js_le (spec_deviation_bps (spec_value f s) m) (Fin 200)) L)"
  by (induction L) (simp_all add: price_of_ok_result devBps_Fin MAX_DEVIATION_BPS_def)

lemma spread_eq:
  "Math_max (map (\<lambda>p. devBps p m) (map Fin vs))
     = Math_max (map (\<lambda>p. spec_deviation_bps p m) vs)"
  by (simp add: devBps_Fin comp_def)

lemma fetchAggregatedPrice_None:
  "fetchAggregatedPrice pf f None =
     (if length (spec_successful f) < 2
      then Inl (Error (''Only '' @ decimal (int (length (spec_successful f))) @ '' sources responded '' @
                       em_dash @ '' refusing to submit''))
      else if length (spec_kept f) < 2
      then Inl (Error (''Only '' @ decimal (int (length (spec_kept f))) @
                       ('' valid sources after outlier filter '' @ em_dash @
                        '' possible manipulation'')))
      else Inr \<lparr>ag_price = spec_median (map (spec_value f) (spec_kept f)),
                ag_sources = map (fetchOne f) SOURCES,
                ag_validSources = Some (map (ok_result f) (spec_kept f)),
                ag_spread = spec_spread (map (spec_value f) (spec_kept f)),
                ag_validCount = length (spec_kept f), ag_override = False\<rparr>)"
proof -
  let ?succ = "spec_successful f"
  let ?vals = "map (spec_value f) ?succ"
  let ?kept = "spec_kept f"
  let ?kv = "map (spec_value f) ?kept"
  have succ: "filter sr_ok (map (fetchOne f) SOURCES) = map (ok_result f) ?succ"
    by (simp add: successful_eq spec_successful_def)
  have prices: "map price_of (map (ok_result f) L) = map Fin (map (spec_value f) L)" for L
    by (simp add: price_of_ok_result)
  show ?thesis
  proof (cases "length ?succ < 2")
    case True
    then show ?thesis
      by (simp add: fetchAggregatedPrice_def succ MIN_SOURCES_def Let_def)
  next
    case False
    then have ne: "?vals \<noteq> []" by auto
    have med1: "median (map price_of (map (ok_result f) ?succ)) = spec_median ?vals"
      unfolding prices by (rule median_Fin [OF ne])
    have valid: "filter (\<lambda>r. js_le (devBps (price_of r) (spec_median ?vals)) MAX_DEVIATION_BPS)
                   (map (ok_result f) ?succ) = map (ok_result f) ?kept"
      by (simp add: valid_eq spec_kept_def Let_def)
    show ?thesis
    proof (cases "length ?kept < 2")
      case True
      with False show ?thesis
        by (simp add: fetchAggregatedPrice_def succ MIN_SOURCES_def Let_def med1 valid
                 del: map_map filter_map length_filter_map)
    next
      case k: False
      then have kne: "?kv \<noteq> []" by auto
      have med2: "median (map price_of (map (ok_result f) ?kept)) = spec_median ?kv"
        unfolding prices by (rule median_Fin [OF kne])
      have spread: "Math_max (map (\<lambda>p. devBps p (spec_median ?kv))
                      (map price_of (map (ok_result f) ?kept)))
                    = spec_spread ?kv"
        unfolding prices spec_spread_def by (rule spread_eq)
      from False k show ?thesis
        by (simp add: fetchAggregatedPrice_def succ MIN_SOURCES_def Let_def med1 valid med2 spread
                 del: map_map filter_map length_filter_map)
    qed
  qed
qed

subsection \<open>Kept sources and outliers\<close>

text \<open>
  A deviation is NaN only against a reference that is NaN, an infinity or zero, and
  against such a reference no deviation is at most 200; so where one source is kept, no
  deviation is NaN and every source is either kept or an outlier.
\<close>

lemma deviation_reference:
  assumes "js_le (spec_deviation_bps p m) (Fin t)"
  shows "\<exists>y. m = Fin y \<and> y \<noteq> 0"
proof (cases m)
  case (Fin y)
  show ?thesis
  proof (cases "y = 0")
    case False
    then show ?thesis using Fin by simp
  next
    case True
    have "spec_deviation_bps p (Fin 0) = NaN \<or> spec_deviation_bps p (Fin 0) = PInf"
    proof (cases "double_of p")
      case (Fin x)
      then show ?thesis
        by (cases "x = 0")
           (simp_all add: spec_deviation_bps_def js_sub_def js_inf_def sgn_if)
    next
      case NaN
      then show ?thesis using double_of_not_NaN [of p] by simp
    next
      case PInf
      then show ?thesis by (simp add: spec_deviation_bps_def js_sub_def js_inf_def)
    next
      case NInf
      then show ?thesis by (simp add: spec_deviation_bps_def js_sub_def js_inf_def)
    qed
    then show ?thesis using assms Fin True by auto
  qed
next
  case NaN
  then show ?thesis using assms by (simp add: spec_deviation_bps_def js_sub_def)
next
  case PInf
  then show ?thesis using assms by (simp add: spec_deviation_bps_def js_sub_def)
next
  case NInf
  then show ?thesis using assms by (simp add: spec_deviation_bps_def js_sub_def)
qed

lemma Math_round_not_NaN: "a \<noteq> NaN \<Longrightarrow> Math_round a \<noteq> NaN"
  by (cases a) simp_all

lemma js_mul_Fin_not_NaN: "a \<noteq> NaN \<Longrightarrow> c \<noteq> 0 \<Longrightarrow> js_mul a (Fin c) \<noteq> NaN"
  by (cases a) (simp_all add: double_of_not_NaN js_inf_def sgn_if)

lemma js_div_Fin_not_NaN: "a \<noteq> NaN \<Longrightarrow> y \<noteq> 0 \<Longrightarrow> js_div a (Fin y) \<noteq> NaN"
  by (cases a) (simp_all add: double_of_not_NaN js_inf_def)

lemma Math_abs_not_NaN: "a \<noteq> NaN \<Longrightarrow> Math_abs a \<noteq> NaN"
  by (cases a) simp_all

lemma deviation_not_NaN: "y \<noteq> 0 \<Longrightarrow> spec_deviation_bps q (Fin y) \<noteq> NaN"
  unfolding spec_deviation_bps_def js_sub_def
  by (intro Math_round_not_NaN js_mul_Fin_not_NaN js_div_Fin_not_NaN Math_abs_not_NaN)
     (simp_all add: double_of_not_NaN)

lemma spec_kept_outliers_partition:
  assumes "spec_kept f \<noteq> []"
  shows "set (spec_successful f) - set (spec_kept f) = set (spec_outliers f)"
proof -
  let ?m = "spec_median (map (spec_value f) (spec_successful f))"
  from assms obtain s where "s \<in> set (spec_kept f)" by (cases "spec_kept f") auto
  then have "js_le (spec_deviation_bps (spec_value f s) ?m) (Fin 200)"
    by (simp add: spec_kept_def Let_def)
  from deviation_reference [OF this] obtain y where m: "?m = Fin y" "y \<noteq> 0" by blast
  have "js_gt (spec_deviation_bps q ?m) (Fin 200) = (\<not> js_le (spec_deviation_bps q ?m) (Fin 200))"
    for q
    unfolding m(1) by (rule js_gt_iff) (simp_all add: deviation_not_NaN [OF m(2)])
  then show ?thesis
    by (auto simp: spec_kept_def spec_outliers_def Let_def)
qed

subsection \<open>Evaluating the arithmetic of doubles\<close>

lemma floor_rat_numeral: "\<lfloor>(numeral a :: rat) / numeral b\<rfloor> = numeral a div numeral b"
  using floor_divide_of_int_eq [of "numeral a" "numeral b", where ?'a = rat] by simp

lemma floor_rat_one_numeral: "\<lfloor>(1 :: rat) / numeral b\<rfloor> = 1 div numeral b"
  using floor_divide_of_int_eq [of 1 "numeral b", where ?'a = rat] by simp

lemmas double_eval = double_of_def exponent_of_def exponent_between.simps pow2_def
  pow2_nonneg.simps round_half_even_def Let_def js_inf_def floor_rat_numeral
  floor_rat_one_numeral

lemmas aggregation_eval = spec_successful_def spec_kept_def spec_outliers_def spec_value_def
  spec_median_def spec_mean_def spec_deviation_bps_def spec_spread_def js_sub_def Math_max_def
  SOURCES_def MIN_SOURCES_def

text \<open>
  Some values of the arithmetic: 0.1 as a double, 0.1 + 0.2 = 0.30000000000000004, the
  largest double and the overflow beyond it, the smallest subnormal number, a tie rounded
  to the even significand, and 4.35 * 100 = 434.99999999999994.
\<close>

lemma double_examples:
  "double_of (1 / 10) = Fin (3602879701896397 / 36028797018963968)"
  "js_add (Fin (3602879701896397 / 36028797018963968)) (Fin (3602879701896397 / 18014398509481984))
     = Fin (1351079888211149 / 4503599627370496)"
  "double_of (2 ^ 1024 - 2 ^ 971) = Fin (2 ^ 1024 - 2 ^ 971)"
  "double_of (2 ^ 1024 - 2 ^ 970) = PInf"
  "double_of (1 / 2 ^ 1074) = Fin (1 / 2 ^ 1074)"
  "double_of (1 / 2 ^ 1075) = Fin 0"
  "double_of (2 ^ 53 + 1) = Fin (2 ^ 53)"
  "double_of (2 ^ 53 + 3) = Fin (2 ^ 53 + 4)"
  "js_mul (Fin (2448832297382707 / 562949953421312)) (Fin 100)
     = Fin (7652600929320959 / 17592186044416)"
  by (simp_all add: double_eval)

subsection \<open>The concrete inputs, evaluated\<close>

lemma scenario_successful:
  "spec_successful scenario_prices = [''Binance'', ''Coinbase'', ''Kraken'', ''CoinGecko'']"
  by code_simp


lemma scenario_deviations:
  "spec_deviation_bps 350 (Fin (701 / 2)) = Fin 14"
  "spec_deviation_bps 351 (Fin (701 / 2)) = Fin 14"
  "spec_deviation_bps (699 / 2) (Fin (701 / 2)) = Fin 29"
  "spec_deviation_bps 500 (Fin (701 / 2)) = Fin 4265"
  "spec_deviation_bps 350 (Fin 350) = Fin 0"
  "spec_deviation_bps 351 (Fin 350) = Fin 29"
  "spec_deviation_bps (699 / 2) (Fin 350) = Fin 14"
  by (simp_all add: spec_deviation_bps_def js_sub_def double_eval)

lemma scenario_values:
  "spec_value scenario_prices ''Binance'' = 350"
  "spec_value scenario_prices ''Coinbase'' = 351"
  "spec_value scenario_prices ''Kraken'' = 699 / 2"
  "spec_value scenario_prices ''CoinGecko'' = 500"
  by code_simp+

lemma scenario_first_median:
  "spec_median (map (spec_value scenario_prices)
     [''Binance'', ''Coinbase'', ''Kraken'', ''CoinGecko'']) = Fin (701 / 2)"
  by (simp add: spec_median_def spec_mean_def scenario_values double_eval)

lemma scenario_kept: "spec_kept scenario_prices = [''Binance'', ''Coinbase'', ''Kraken'']"
  unfolding spec_kept_def scenario_successful scenario_first_median Let_def
  by (simp add: scenario_values scenario_deviations)

lemma scenario_outliers: "spec_outliers scenario_prices = [''CoinGecko'']"
  unfolding spec_outliers_def scenario_successful scenario_first_median Let_def
  by (simp add: scenario_values scenario_deviations)

lemma scenario_median:
  "spec_median (map (spec_value scenario_prices) [''Binance'', ''Coinbase'', ''Kraken'']) = Fin 350"
  by (simp add: spec_median_def scenario_values)

lemma scenario_spread:
  "spec_spread (map (spec_value scenario_prices) [''Binance'', ''Coinbase'', ''Kraken'']) = Fin 29"
  unfolding spec_spread_def scenario_median
  by (simp add: scenario_values scenario_deviations Math_max_def)

lemma close_successful:
  "spec_successful close_quotes = [''Binance'', ''Coinbase'', ''Kraken'', ''CoinGecko'']"
  by code_simp

lemma close_values:
  "spec_value close_quotes ''Binance'' = 19599 / 4"
  "spec_value close_quotes ''Coinbase'' = 5000"
  "spec_value close_quotes ''Kraken'' = 5000"
  "spec_value close_quotes ''CoinGecko'' = 20401 / 4"
  by code_simp+

lemma close_median:
  "spec_median (map (spec_value close_quotes)
     [''Binance'', ''Coinbase'', ''Kraken'', ''CoinGecko'']) = Fin 5000"
  by (simp add: spec_median_def spec_mean_def close_values double_eval)

lemma close_deviations:
  "spec_deviation_bps (19599 / 4) (Fin 5000) = Fin 200"
  "spec_deviation_bps 5000 (Fin 5000) = Fin 0"
  "spec_deviation_bps (20401 / 4) (Fin 5000) = Fin 200"
  by (simp_all add: spec_deviation_bps_def js_sub_def double_eval)

lemma close_kept:
  "spec_kept close_quotes = [''Binance'', ''Coinbase'', ''Kraken'', ''CoinGecko'']"
  unfolding spec_kept_def close_successful close_median Let_def
  by (simp add: close_values close_deviations)

lemma close_spread:
  "spec_spread (map (spec_value close_quotes)
     [''Binance'', ''Coinbase'', ''Kraken'', ''CoinGecko'']) = Fin 200"
  unfolding spec_spread_def close_median
  by (simp add: close_values close_deviations Math_max_def)

lemma far_apart_successful: "spec_successful two_far_apart = [''Binance'', ''Coinbase'']"
  by code_simp

lemma far_apart_kept: "spec_kept two_far_apart = []"
proof -
  have v: "spec_value two_far_apart ''Binance'' = 100" "spec_value two_far_apart ''Coinbase'' = 200"
    by code_simp+
  have m: "spec_median (map (spec_value two_far_apart) [''Binance'', ''Coinbase'']) = Fin 150"
    by (simp add: spec_median_def spec_mean_def v double_eval)
  have d: "spec_deviation_bps 100 (Fin 150) = Fin 3333" "spec_deviation_bps 200 (Fin 150) = Fin 3333"
    by (simp_all add: spec_deviation_bps_def js_sub_def double_eval)
  show ?thesis
    unfolding spec_kept_def far_apart_successful m Let_def by (simp add: v d)
qed

text \<open>
  C2 (as amended). Whenever at least \<open>MIN_SOURCES\<close> sources respond with a finite
  positive value and at least \<open>MIN_SOURCES\<close> of them lie within \<open>MAX_DEVIATION_BPS = 200\<close>
  basis points of the median of all successful values, \<open>fetchAggregatedPrice\<close> returns a
  result: the valid sources are exactly the successful ones whose deviation from that
  pre-filter median (in basis points, rounded to the nearest integer) is at most 200, every
  other successful source is an outlier, the price is the median of the values of the valid
  sources, and the spread is the largest deviation of a valid value from this final
  median. Medians and deviations are computed in double arithmetic, each operation
  rounded: a deviation of 200.49999999999997 basis points counts as 200.
\<close>

theorem C2_median_of_filtered_sources:
  assumes "MIN_SOURCES \<le> length (spec_successful f)"
    and "MIN_SOURCES \<le> length (spec_kept f)"
  shows "\<exists>r. fetchAggregatedPrice pf f None = Inr r
           \<and> ag_price r = spec_median (map (spec_value f) (spec_kept f))
           \<and> map_option (map sr_name) (ag_validSources r) = Some (spec_kept f)
           \<and> map_option (map sr_price) (ag_validSources r)
               = Some (map (\<lambda>s. Some (Fin (spec_value f s))) (spec_kept f))
           \<and> ag_validCount r = length (spec_kept f)
           \<and> ag_spread r = spec_spread (map (spec_value f) (spec_kept f))
           \<and> set (spec_successful f) - set (spec_kept f) = set (spec_outliers f)"
proof -
  have "spec_kept f \<noteq> []" using assms(2) by (auto simp: MIN_SOURCES_def)
  then have "set (spec_successful f) - set (spec_kept f) = set (spec_outliers f)"
    by (rule spec_kept_outliers_partition)
  then show ?thesis
    using assms
    by (simp add: fetchAggregatedPrice_None MIN_SOURCES_def ok_result_def comp_def)
qed

theorem C2_median_of_filtered_sources_witness:
  "MIN_SOURCES \<le> length (spec_successful scenario_prices)
   \<and> MIN_SOURCES \<le> length (spec_kept scenario_prices)
   \<and> spec_kept scenario_prices = [''Binance'', ''Coinbase'', ''Kraken'']
   \<and> spec_outliers scenario_prices = [''CoinGecko'']
   \<and> (\<exists>r. fetchAggregatedPrice no_number scenario_prices None = Inr r
          \<and> ag_price r = Fin 350 \<and> ag_validCount r = 3 \<and> ag_spread r = Fin 29)
   \<and> MIN_SOURCES \<le> length (spec_successful close_quotes)
   \<and> MIN_SOURCES \<le> length (spec_kept close_quotes)
   \<and> spec_kept close_quotes = [''Binance'', ''Coinbase'', ''Kraken'', ''CoinGecko'']
   \<and> (\<exists>r. fetchAggregatedPrice no_number close_quotes None = Inr r
          \<and> ag_price r = Fin 5000 \<and> ag_validCount r = 4 \<and> ag_spread r = Fin 200)"
proof -
  have h1: "MIN_SOURCES \<le> length (spec_successful scenario_prices)"
    by (simp add: scenario_successful MIN_SOURCES_def)
  have k: "spec_kept scenario_prices = [''Binance'', ''Coinbase'', ''Kraken'']"
    by (rule scenario_kept)
  have h2: "MIN_SOURCES \<le> length (spec_kept scenario_prices)"
    by (simp add: k MIN_SOURCES_def)
  have out: "spec_outliers scenario_prices = [''CoinGecko'']" by (rule scenario_outliers)
  have m: "spec_median (map (spec_value scenario_prices) (spec_kept scenario_prices)) = Fin 350"
    unfolding k by (rule scenario_median)
  have sp: "spec_spread (map (spec_value scenario_prices) (spec_kept scenario_prices)) = Fin 29"
    unfolding k by (rule scenario_spread)
  have n: "length (spec_kept scenario_prices) = 3" by (simp add: k)
  have g1: "MIN_SOURCES \<le> length (spec_successful close_quotes)"
    by (simp add: close_successful MIN_SOURCES_def)
  have k': "spec_kept close_quotes = [''Binance'', ''Coinbase'', ''Kraken'', ''CoinGecko'']"
    by (rule close_kept)
  have g2: "MIN_SOURCES \<le> length (spec_kept close_quotes)"
    by (simp add: k' MIN_SOURCES_def)
  have m': "spec_median (map (spec_value close_quotes) (spec_kept close_quotes)) = Fin 5000"
    unfolding k' by (rule close_median)
  have sp': "spec_spread (map (spec_value close_quotes) (spec_kept close_quotes)) = Fin 200"
    unfolding k' by (rule close_spread)
  have n': "length (spec_kept close_quotes) = 4" by (simp add: k')
  from C2_median_of_filtered_sources [OF h1 h2, of no_number]
  obtain r where "fetchAggregatedPrice no_number scenario_prices None = Inr r"
    and "ag_price r = Fin 350" and "ag_validCount r = 3" and "ag_spread r = Fin 29"
    unfolding m sp n by auto
  then have a: "\<exists>r. fetchAggregatedPrice no_number scenario_prices None = Inr r
          \<and> ag_price r = Fin 350 \<and> ag_validCount r = 3 \<and> ag_spread r = Fin 29" by blast
  from C2_median_of_filtered_sources [OF g1 g2, of no_number]
  obtain r' where "fetchAggregatedPrice no_number close_quotes None = Inr r'"
    and "ag_price r' = Fin 5000" and "ag_validCount r' = 4" and "ag_spread r' = Fin 200"
    unfolding m' sp' n' by auto
  then have b: "\<exists>r. fetchAggregatedPrice no_number close_quotes None = Inr r
          \<and> ag_price r = Fin 5000 \<and> ag_validCount r = 4 \<and> ag_spread r = Fin 200" by blast
  show ?thesis using h1 h2 k out a g1 g2 k' b by blast
qed

text \<open>
  The claim C2 as it was stated fails where two sources respond and both are discarded:
  with the answers 100 and 200 the pre-filter median is 150, both deviate by 3333 basis
  points, and no price is returned.
\<close>

theorem C2_counterexample:
  "MIN_SOURCES \<le> length (filter sr_ok (map (fetchOne two_far_apart) SOURCES))
   \<and> fetchAggregatedPrice no_number two_far_apart None
       = Inl (Error (''Only 0 valid sources after outlier filter '' @ em_dash @
                     '' possible manipulation''))"
proof -
  have "filter sr_ok (map (fetchOne two_far_apart) SOURCES)
          = map (ok_result two_far_apart) (spec_successful two_far_apart)"
    by (simp add: successful_eq spec_successful_def)
  then have "MIN_SOURCES \<le> length (filter sr_ok (map (fetchOne two_far_apart) SOURCES))"
    by (simp add: far_apart_successful MIN_SOURCES_def)
  moreover have "decimal 0 = ''0''" by code_simp
  ultimately show ?thesis
    by (simp add: fetchAggregatedPrice_None far_apart_successful far_apart_kept)
qed

text \<open>
  C3. Without an override, \<open>fetchAggregatedPrice\<close> raises in exactly two cases: fewer
  than \<open>MIN_SOURCES = 2\<close> sources responded (message "Only n sources responded ... refusing
  to submit"), or at least two responded and fewer than two remain after the filter against
  the pre-filter median (message "Only n valid sources after outlier filter ... possible
  manipulation"). In every other case it returns a result, whose price is the median of
  the remaining values. The sources that remain are those whose deviation, computed and
  rounded as the code does in double arithmetic, is at most 200 basis points.
\<close>

theorem C3_aggregation_fails_in_two_cases:
  "fetchAggregatedPrice pf f None =
     (if length (spec_successful f) < MIN_SOURCES
      then Inl (Error (''Only '' @ decimal (int (length (spec_successful f))) @
                       '' sources responded '' @ em_dash @ '' refusing to submit''))
      else if length (spec_kept f) < MIN_SOURCES
      then Inl (Error (''Only '' @ decimal (int (length (spec_kept f))) @
                       ('' valid sources after outlier filter '' @ em_dash @
                        '' possible manipulation'')))
      else Inr \<lparr>ag_price = spec_median (map (spec_value f) (spec_kept f)),
                ag_sources = map (fetchOne f) SOURCES,
                ag_validSources = Some (map (ok_result f) (spec_kept f)),
                ag_spread = spec_spread (map (spec_value f) (spec_kept f)),
                ag_validCount = length (spec_kept f), ag_override = False\<rparr>)
   \<and> MIN_SOURCES = 2"
  by (simp add: fetchAggregatedPrice_None MIN_SOURCES_def)

theorem C3_aggregation_fails_in_two_cases_witness:
  "fetchAggregatedPrice no_number one_answer None
     = Inl (Error (''Only 1 sources responded '' @ em_dash @ '' refusing to submit''))
   \<and> fetchAggregatedPrice no_number two_far_apart None
       = Inl (Error (''Only 0 valid sources after outlier filter '' @ em_dash @
                     '' possible manipulation''))
   \<and> (\<exists>r. fetchAggregatedPrice no_number scenario_prices None = Inr r \<and> ag_price r = Fin 350)
   \<and> (\<exists>r. fetchAggregatedPrice no_number close_quotes None = Inr r \<and> ag_price r = Fin 5000)"
proof -
  have a: "length (spec_successful one_answer) = 1" by code_simp
  have b: "length (spec_successful two_far_apart) = 2" "length (spec_kept two_far_apart) = 0"
    by (simp_all add: far_apart_successful far_apart_kept)
  have c0: "spec_median (map (spec_value scenario_prices) (spec_kept scenario_prices)) = Fin 350"
    unfolding scenario_kept by (rule scenario_median)
  have c: "length (spec_successful scenario_prices) = 4" "length (spec_kept scenario_prices) = 3"
    by (simp_all add: scenario_successful scenario_kept)
  have c0': "spec_median (map (spec_value close_quotes) (spec_kept close_quotes)) = Fin 5000"
    unfolding close_kept by (rule close_median)
  have c': "length (spec_successful close_quotes) = 4" "length (spec_kept close_quotes) = 4"
    by (simp_all add: close_successful close_kept)
  have d: "decimal 0 = ''0''" "decimal 1 = ''1''" by code_simp+
  have m: "MIN_SOURCES = 2" by (simp add: MIN_SOURCES_def)
  have 1: "fetchAggregatedPrice no_number one_answer None
     = Inl (Error (''Only 1 sources responded '' @ em_dash @ '' refusing to submit''))"
    using C3_aggregation_fails_in_two_cases [of no_number one_answer]
    unfolding a m by (simp add: d)
  have 2: "fetchAggregatedPrice no_number two_far_apart None
       = Inl (Error (''Only 0 valid sources after outlier filter '' @ em_dash @
                     '' possible manipulation''))"
    using C3_aggregation_fails_in_two_cases [of no_number two_far_apart]
    unfolding b m by (simp add: d)
  have 3: "\<exists>r. fetchAggregatedPrice no_number scenario_prices None = Inr r \<and> ag_price r = Fin 350"
    using C3_aggregation_fails_in_two_cases [of no_number scenario_prices]
    unfolding c c0 m by simp
  have 4: "\<exists>r. fetchAggregatedPrice no_number close_quotes None = Inr r \<and> ag_price r = Fin 5000"
    using C3_aggregation_fails_in_two_cases [of no_number close_quotes]
    unfolding c' c0' m by simp
  show ?thesis using 1 2 3 4 by blast
qed

text \<open>
  C9. With an override string the aggregation is bypassed and nothing is validated: the
  result is \<open>parseFloat\<close> of the string as the price, the single source "OVERRIDE" marked
  ok, \<open>validCount = 1\<close> and \<open>spread = 0\<close>, whatever number the string parses to. The test
  \<open>isFinite(price) && price > 0\<close> of \<open>fetchOne\<close>, which turns the same number coming from
  a source into a failed result, takes no part in it.
\<close>

theorem C9_override_is_not_validated:
  "fetchAggregatedPrice parseFloat f (Some s)
     = Inr \<lparr>ag_price = parseFloat s,
            ag_sources = [\<lparr>sr_name = ''OVERRIDE'', sr_price = Some (parseFloat s), sr_ok = True,
                           sr_error = None\<rparr>],
            ag_validSources = None, ag_spread = Fin 0, ag_validCount = 1, ag_override = True\<rparr>
   \<and> sr_ok (fetchOne (\<lambda>src. Inr (parseFloat s)) src)
       = (isFinite (parseFloat s) \<and> \<not> js_le (parseFloat s) (Fin 0))"
  by (simp add: fetchAggregatedPrice_def fetchOne_def Let_def)

theorem C9_override_is_not_validated_witness:
  "(\<exists>r. fetchAggregatedPrice no_number scenario_prices (Some ''abc'') = Inr r
        \<and> ag_price r = NaN \<and> ag_validCount r = 1 \<and> ag_spread r = Fin 0 \<and> ag_override r)
   \<and> \<not> sr_ok (fetchOne (\<lambda>src. Inr (no_number ''abc'')) ''Binance'')
   \<and> (\<exists>r. fetchAggregatedPrice (\<lambda>s. Fin (- 5)) scenario_prices (Some ''-5'') = Inr r
        \<and> ag_price r = Fin (- 5) \<and> ag_validCount r = 1)
   \<and> \<not> sr_ok (fetchOne (\<lambda>src. Inr (Fin (- 5))) ''Binance'')
   \<and> (\<exists>r. fetchAggregatedPrice (\<lambda>s. PInf) scenario_prices (Some ''Infinity'') = Inr r
        \<and> ag_price r = PInf \<and> ag_validCount r = 1)
   \<and> \<not> sr_ok (fetchOne (\<lambda>src. Inr PInf) ''Binance'')"
  using C9_override_is_not_validated [of no_number scenario_prices "''abc''" "''Binance''"]
    no_number_def [of "''abc''"]
    C9_override_is_not_validated [of "\<lambda>s. Fin (- 5)" scenario_prices "''-5''" "''Binance''"]
    C9_override_is_not_validated [of "\<lambda>s. PInf" scenario_prices "''Infinity''" "''Binance''"]
  by simp

section \<open>Properties of the archive checksums\<close>


lemma Buffer_copy_shard:
  assumes "i * n \<le> length bs"
  shows "Buffer_copy bs (Buffer_alloc n) (i * n) (min ((i + 1) * n) (length bs))
         = Inr (take n (drop (i * n) bs) @ replicate (n - length (take n (drop (i * n) bs))) 0)"
proof (cases "n = 0 \<or> min ((i + 1) * n) (length bs) \<le> i * n")
  case True
  then have "n = 0 \<or> length bs \<le> i * n" by (auto simp: min_def split: if_splits)
  then show ?thesis using assms True
    by (auto simp: Buffer_copy_def Buffer_alloc_def)
next
  case False
  then have n: "0 < n" and lt: "i * n < length bs" by (auto simp: min_def split: if_splits)
  have e: "take (min ((i + 1) * n) (length bs) - i * n) (drop (i * n) bs) = take n (drop (i * n) bs)"
  proof (cases "(i + 1) * n \<le> length bs")
    case True
    then show ?thesis by (simp add: min_def)
  next
    case F: False
    then have "length (drop (i * n) bs) \<le> n" by simp
    with F show ?thesis by (simp add: min_def)
  qed
  show ?thesis
    using False assms n
    by (simp add: Buffer_copy_def Buffer_alloc_def Let_def e min_def)
qed

lemma spec_shard_alt:
  "spec_shard bs i = take (spec_shard_size bs) (drop (i * spec_shard_size bs) bs)
      @ replicate (spec_shard_size bs - length (take (spec_shard_size bs) (drop (i * spec_shard_size bs) bs))) 0"
  by (simp add: spec_shard_def Let_def)

lemma length_spec_shard: "length (spec_shard bs i) = spec_shard_size bs"
  by (simp add: spec_shard_def Let_def)

lemma shards_in_range:
  assumes "length bs \<notin> {1, 2, 5}" and "i < 4"
  shows "i * spec_shard_size bs \<le> length bs"
proof -
  have a: "3 * ((length bs + 3) div 4) \<le> length bs" using assms(1) by (simp; presburger)
  have b: "i * ((length bs + 3) div 4) \<le> 3 * ((length bs + 3) div 4)"
    using assms(2) by (intro mult_le_mono1) simp
  from b a show ?thesis unfolding spec_shard_size_def by (rule order_trans)
qed

lemma data_shard_loop_ok:
  assumes "\<And>i. i \<in> set idx \<Longrightarrow> i * spec_shard_size bs \<le> length bs"
  shows "data_shard_loop sha bs (spec_shard_size bs) idx ds cs
         = Inr (ds @ map (spec_shard bs) idx, cs @ map (\<lambda>i. digest_bytes (sha (spec_shard bs i))) idx)"
  using assms
proof (induction idx arbitrary: ds cs)
  case Nil
  then show ?case by simp
next
  case (Cons i idx)
  have "i * spec_shard_size bs \<le> length bs" using Cons.prems by simp
  then have c: "Buffer_copy bs (Buffer_alloc (spec_shard_size bs)) (i * spec_shard_size bs)
             (min ((i + 1) * spec_shard_size bs) (length bs)) = Inr (spec_shard bs i)"
    unfolding spec_shard_alt by (rule Buffer_copy_shard)
  have ih: "data_shard_loop sha bs (spec_shard_size bs) idx ds' cs'
         = Inr (ds' @ map (spec_shard bs) idx,
                cs' @ map (\<lambda>i. digest_bytes (sha (spec_shard bs i))) idx)" for ds' cs'
    using Cons.prems by (intro Cons.IH) simp
  show ?case unfolding data_shard_loop.simps c sum.case ih by simp
qed


lemma map2_xor_zeros: "length xs = n \<Longrightarrow> map2 (XOR) (replicate n (0::byte)) xs = xs"
  by (induction xs arbitrary: n) auto

lemma parity_shard_0:
  "parity_shard (spec_shard_size bs) (map (spec_shard bs) [0..<4]) 0 = spec_parity bs"
proof -
  have u: "[0..<4] = [0, 1, 2, 3]" by (simp add: upt_rec)
  show ?thesis
    by (simp add: parity_shard_def u spec_parity_def spec_xor_def Buffer_alloc_def
        map2_xor_zeros length_spec_shard del: upt_Suc)
qed

lemma one_and_255: "(of_nat (Suc 0) AND 255 :: byte) = 1"
  by simp

lemma parity_shard_1:
  "parity_shard (spec_shard_size bs) (map (spec_shard bs) [0..<4]) 1
   = spec_flip_first (spec_parity bs)"
proof -
  have u: "[0..<4] = [0, 1, 2, 3]" by (simp add: upt_rec)
  show ?thesis
    by (simp add: parity_shard_def u spec_parity_def spec_xor_def Buffer_alloc_def
        map2_xor_zeros length_spec_shard spec_flip_first_def one_and_255 del: upt_Suc
        split: list.split)
qed

lemma manualChecksums_ok:
  assumes "length bs \<notin> {1, 2, 5}"
  shows "manualChecksums sha bs
         = Inr [digest_bytes (sha bs),
                digest_bytes (sha (spec_shard bs 0)), digest_bytes (sha (spec_shard bs 1)),
                digest_bytes (sha (spec_shard bs 2)), digest_bytes (sha (spec_shard bs 3)),
                digest_bytes (sha (spec_parity bs)),
                digest_bytes (sha (spec_flip_first (spec_parity bs)))]"
proof -
  have n: "(length bs + EC_DATA - 1) div EC_DATA = spec_shard_size bs"
    by (simp add: EC_DATA_def spec_shard_size_def)
  have loop: "data_shard_loop sha bs (spec_shard_size bs) [0..<4] [] [digest_bytes (sha bs)]
        = Inr (map (spec_shard bs) [0..<4],
               [digest_bytes (sha bs)] @ map (\<lambda>i. digest_bytes (sha (spec_shard bs i))) [0..<4])"
    using data_shard_loop_ok [of "[0..<4]" bs sha "[]" "[digest_bytes (sha bs)]"]
      shards_in_range [OF assms] by simp
  have p: "[0..<EC_PARITY] = [0, 1]" by (simp add: EC_PARITY_def upt_rec)
  have u: "[0..<4] = [0, 1, 2, 3]" by (simp add: upt_rec)
  have "manualChecksums sha bs
        = Inr ([digest_bytes (sha bs)] @ map (\<lambda>i. digest_bytes (sha (spec_shard bs i))) [0..<4]
               @ [digest_bytes (sha (spec_parity bs)),
                  digest_bytes (sha (spec_flip_first (spec_parity bs)))])"
    unfolding manualChecksums_def Let_def n
    by (simp only: EC_DATA_def loop sum.case prod.case p list.map parity_shard_0 parity_shard_1
          append_assoc)
  then show ?thesis by (simp add: u del: upt_Suc)
qed









section \<open>Properties of the salt\<close>

lemma BigInt_of_hex_bytes_snoc:
  "BigInt_of_hex_bytes (bs @ [b]) = BigInt_of_hex_bytes bs * 256 + uint b"
  by (simp add: BigInt_of_hex_bytes_def)

lemma BigInt_of_hex_bytes_Nil: "BigInt_of_hex_bytes [] = 0"
  by (simp add: BigInt_of_hex_bytes_def)

lemma uint_byte_bound: "uint (b :: byte) < 256"
  using uint_bounded [of b] by simp

lemma BigInt_of_hex_bytes_range:
  "0 \<le> BigInt_of_hex_bytes bs \<and> BigInt_of_hex_bytes bs < 256 ^ length bs"
proof (induction bs rule: rev_induct)
  case Nil
  then show ?case by (simp add: BigInt_of_hex_bytes_Nil)
next
  case (snoc b bs)
  have "uint b < 256" by (rule uint_byte_bound)
  moreover have "0 \<le> uint b" by simp
  moreover have "BigInt_of_hex_bytes bs + 1 \<le> 256 ^ length bs" using snoc by simp
  then have "(BigInt_of_hex_bytes bs + 1) * 256 \<le> 256 ^ length bs * 256"
    by (rule mult_right_mono) simp
  ultimately show ?case using snoc by (simp add: BigInt_of_hex_bytes_snoc algebra_simps)
qed

lemma BigInt_of_hex_bytes_inj:
  "length xs = length ys \<Longrightarrow> BigInt_of_hex_bytes xs = BigInt_of_hex_bytes ys \<Longrightarrow> xs = ys"
proof (induction xs arbitrary: ys rule: rev_induct)
  case Nil
  then show ?case by simp
next
  case (snoc x xs)
  then obtain y ys' where ys: "ys = ys' @ [y]" by (cases ys rule: rev_cases) auto
  let ?a = "BigInt_of_hex_bytes xs" and ?b = "BigInt_of_hex_bytes ys'"
  have eq: "?a * 256 + uint x = ?b * 256 + uint y"
    using snoc.prems(2) by (simp add: ys BigInt_of_hex_bytes_snoc)
  have bx: "0 \<le> uint x" "uint x < 256" "0 \<le> uint y" "uint y < 256"
    using uint_byte_bound by auto
  have "(?a * 256 + uint x) div 256 = ?a" "(?b * 256 + uint y) div 256 = ?b"
    using bx by auto
  then have ab: "?a = ?b" using eq by simp
  then have "uint x = uint y" using eq by simp
  then have "x = y" by (rule word_uint_eqI)
  moreover have "xs = ys'" using snoc.IH [of ys'] snoc.prems(1) ab by (simp add: ys)
  ultimately show ?case by (simp add: ys)
qed

lemma BigInt_of_hex_bytes_surj:
  "0 \<le> v \<Longrightarrow> v < 256 ^ n \<Longrightarrow> \<exists>bs. length bs = n \<and> BigInt_of_hex_bytes bs = v"
proof (induction n arbitrary: v)
  case 0
  then show ?case by (simp add: BigInt_of_hex_bytes_Nil)
next
  case (Suc n)
  have "0 \<le> v div 256" using Suc.prems(1) by simp
  moreover have "v div 256 < 256 ^ n" using Suc.prems(2) by (simp add: div_less_iff_less_mult mult.commute)
  ultimately obtain bs where bs: "length bs = n" "BigInt_of_hex_bytes bs = v div 256"
    using Suc.IH by blast
  let ?b = "word_of_int (v mod 256) :: byte"
  have "uint ?b = v mod 256" by (simp add: uint_word_of_int take_bit_eq_mod)
  then have "BigInt_of_hex_bytes (bs @ [?b]) = v"
    by (simp add: BigInt_of_hex_bytes_snoc bs)
  then show ?case using bs(1) by (intro exI [of _ "bs @ [?b]"]) simp
qed

lemma two_248: "(256::int) ^ 31 = 2 ^ 248"
  by simp

lemma below_modulus: "(2::int) ^ 248 < FIELD_MODULUS"
  by (simp add: FIELD_MODULUS_def)

lemma length_randomBytes: "length (randomBytes rb pos n) = n"
  by (simp add: randomBytes_def)

lemma draw_salt_first:
  "draw_salt rb pos = Some (BigInt_of_hex_bytes (randomBytes rb pos 31), pos + 31)"
proof -
  have "BigInt_of_hex_bytes (randomBytes rb pos 31) < 256 ^ 31"
    using BigInt_of_hex_bytes_range [of "randomBytes rb pos 31"] by (simp add: length_randomBytes)
  then have "\<not> FIELD_MODULUS \<le> BigInt_of_hex_bytes (randomBytes rb pos 31)"
    using below_modulus by simp
  then show ?thesis by (subst draw_salt.simps) simp
qed

lemma randomBytes_of_list:
  "length bs = n \<Longrightarrow> randomBytes (\<lambda>i. bs ! (i - pos)) pos n = bs"
  by (auto simp: randomBytes_def intro: nth_equalityI)


lemma salt_step:
  "(case draw_salt rb pos of None \<Rightarrow> (NoReturn, s)
     | Some (salt, pos') \<Rightarrow> (Returns salt, s\<lparr>rng_pos := pos'\<rparr>))
   = (Returns (BigInt_of_hex_bytes (randomBytes rb pos 31)), s\<lparr>rng_pos := pos + 31\<rparr>)"
  by (simp add: draw_salt_first)

lemma generateProof_salt_range:
  assumes "generateProof w priceUSD ts s = (Returns pd, s')"
  shows "0 \<le> pd_salt pd \<and> pd_salt pd < 2 ^ 248"
proof -
  have r: "0 \<le> BigInt_of_hex_bytes (randomBytes rb pos 31)
           \<and> BigInt_of_hex_bytes (randomBytes rb pos 31) < 2 ^ 248" for rb pos
    using BigInt_of_hex_bytes_range [of "randomBytes rb pos 31"] by (simp add: length_randomBytes)
  from assms obtain rb pos where "pd_salt pd = BigInt_of_hex_bytes (randomBytes rb pos 31)"
    unfolding generateProof_def and_then_def salt_step
    by (auto simp: ret_def throw_def call_def
             split: outcome.splits prod.splits list.splits if_splits sum.splits)
  then show ?thesis using r by simp
qed

lemma generateProof_returns:
  "fst (generateProof w priceUSD ts s) \<noteq> NoReturn"
  unfolding generateProof_def and_then_def salt_step
  by (auto simp: ret_def throw_def checkCircuitFiles_def and_then_def ask_def call_def lift_def
      split: outcome.splits prod.splits list.splits if_splits option.splits sum.splits)

text \<open>
  C4 (as amended). The salt is the number spelt by 31 random bytes: the first draw is
  always accepted, since its value lies in \<open>[0, 2^248)\<close> and \<open>2^248\<close> is below
  \<open>FIELD_MODULUS\<close>; the test \<open>salt >= FIELD_MODULUS\<close> is never true and the loop never
  resamples. So \<open>generateProof\<close> always gets past the loop, every salt it returns is
  strictly below \<open>2^248\<close> and hence below \<open>FIELD_MODULUS\<close>, every integer of \<open>[0, 2^248)\<close>
  is the salt for some random bytes, and since the 31-byte strings correspond one to one to
  the integers of \<open>[0, 2^248)\<close>, uniform bytes give a salt uniform on \<open>[0, 2^248)\<close>.
\<close>

theorem C4_salt_from_31_bytes:
  "draw_salt rb pos = Some (BigInt_of_hex_bytes (randomBytes rb pos 31), pos + 31)
   \<and> 0 \<le> BigInt_of_hex_bytes (randomBytes rb pos 31)
   \<and> BigInt_of_hex_bytes (randomBytes rb pos 31) < 2 ^ 248
   \<and> (2 :: int) ^ 248 < FIELD_MODULUS
   \<and> (0 \<le> v \<and> v < 2 ^ 248 \<longrightarrow> (\<exists>rb'. draw_salt rb' pos = Some (v, pos + 31)))
   \<and> bij_betw BigInt_of_hex_bytes {bs. length bs = 31} {0..<2 ^ 248}
   \<and> fst (generateProof w priceUSD ts s) \<noteq> NoReturn
   \<and> (generateProof w priceUSD ts s = (Returns pd, s')
        \<longrightarrow> 0 \<le> pd_salt pd \<and> pd_salt pd < 2 ^ 248 \<and> pd_salt pd < FIELD_MODULUS)"
proof -
  have r: "0 \<le> BigInt_of_hex_bytes (randomBytes rb pos 31)
           \<and> BigInt_of_hex_bytes (randomBytes rb pos 31) < 2 ^ 248"
    using BigInt_of_hex_bytes_range [of "randomBytes rb pos 31"] by (simp add: length_randomBytes)
  have surj: "\<exists>rb'. draw_salt rb' pos = Some (v, pos + 31)" if "0 \<le> v" "v < 2 ^ 248"
  proof -
    from that obtain bs where bs: "length bs = 31" "BigInt_of_hex_bytes bs = v"
      using BigInt_of_hex_bytes_surj [of v 31] by auto
    have "randomBytes (\<lambda>i. bs ! (i - pos)) pos 31 = bs" using bs(1) by (rule randomBytes_of_list)
    then have "draw_salt (\<lambda>i. bs ! (i - pos)) pos = Some (v, pos + 31)"
      using draw_salt_first [of "\<lambda>i. bs ! (i - pos)" pos] bs(2) by simp
    then show ?thesis by blast
  qed
  have bij: "bij_betw BigInt_of_hex_bytes {bs. length bs = 31} {0..<2 ^ 248}"
    unfolding bij_betw_def
  proof
    show "inj_on BigInt_of_hex_bytes {bs. length bs = 31}"
      by (rule inj_onI) (simp add: BigInt_of_hex_bytes_inj)
    show "BigInt_of_hex_bytes ` {bs. length bs = 31} = {0..<2 ^ 248}"
    proof (rule set_eqI)
      fix v
      show "(v \<in> BigInt_of_hex_bytes ` {bs. length bs = 31}) = (v \<in> {0..<2 ^ 248})"
      proof
        assume "v \<in> BigInt_of_hex_bytes ` {bs. length bs = 31}"
        then obtain bs where "length bs = 31" "v = BigInt_of_hex_bytes bs" by auto
        then show "v \<in> {0..<2 ^ 248}" using BigInt_of_hex_bytes_range [of bs] by simp
      next
        assume "v \<in> {0..<2 ^ 248}"
        then obtain bs where "length bs = 31" "BigInt_of_hex_bytes bs = v"
          using BigInt_of_hex_bytes_surj [of v 31] by auto
        then show "v \<in> BigInt_of_hex_bytes ` {bs. length bs = 31}" by auto
      qed
    qed
  qed
  have gen: "generateProof w priceUSD ts s = (Returns pd, s')
        \<longrightarrow> 0 \<le> pd_salt pd \<and> pd_salt pd < 2 ^ 248 \<and> pd_salt pd < FIELD_MODULUS"
    using generateProof_salt_range [of w priceUSD ts s pd s'] below_modulus by auto
  show ?thesis
    using draw_salt_first [of rb pos] r below_modulus surj bij gen
      generateProof_returns [of w priceUSD ts s]
    by blast
qed

theorem C4_salt_from_31_bytes_witness:
  "draw_salt (w_random_byte calm_world) 0
     = Some (6955983830576953300627822532721063284149725145715624041201556132732190, 31)
   \<and> (6955983830576953300627822532721063284149725145715624041201556132732190 :: int)
       < FIELD_MODULUS
   \<and> (0 :: int) \<le> 12345 \<and> (12345 :: int) < 2 ^ 248
   \<and> (\<exists>rb. draw_salt rb 0 = Some (12345, 31))
   \<and> fst (generateProof calm_world (Fin 350) None initial_state) \<noteq> NoReturn"
proof -
  have r: "randomBytes (w_random_byte calm_world) 0 31 = map of_nat [0..<31]"
    by (simp add: randomBytes_def calm_world_def)
  have "BigInt_of_hex_bytes (map of_nat [0..<31])
           = 6955983830576953300627822532721063284149725145715624041201556132732190"
    by code_simp
  then have v: "BigInt_of_hex_bytes (randomBytes (w_random_byte calm_world) 0 31)
           = 6955983830576953300627822532721063284149725145715624041201556132732190"
    by (simp only: r)
  have m: "(6955983830576953300627822532721063284149725145715624041201556132732190 :: int)
           < FIELD_MODULUS"
    by (simp add: FIELD_MODULUS_def)
  have h: "(0 :: int) \<le> 12345 \<and> (12345 :: int) < 2 ^ 248" by simp
  note c = C4_salt_from_31_bytes
         [of "w_random_byte calm_world" 0 12345 calm_world "Fin 350" None initial_state,
          unfolded v]
  have 1: "draw_salt (w_random_byte calm_world) 0
     = Some (6955983830576953300627822532721063284149725145715624041201556132732190, 31)"
    using c by simp
  have 2: "\<exists>rb. draw_salt rb 0 = Some (12345, 31)"
    using c h by simp
  have 3: "fst (generateProof calm_world (Fin 350) None initial_state) \<noteq> NoReturn"
    using c by blast
  show ?thesis using 1 2 3 h m by blast
qed

text \<open>
  The claim C4 as it was stated fails at \<open>2^248\<close>: it lies in \<open>[0, FIELD_MODULUS)\<close>, and no
  random bytes make it the salt.
\<close>

theorem C4_counterexample:
  "(0 :: int) \<le> 2 ^ 248 \<and> (2 :: int) ^ 248 < FIELD_MODULUS
   \<and> \<not> (\<exists>rb pos pos'. draw_salt rb pos = Some (2 ^ 248, pos'))"
proof -
  have "\<not> (\<exists>rb pos pos'. draw_salt rb pos = Some (2 ^ 248, pos'))"
  proof
    assume "\<exists>rb pos pos'. draw_salt rb pos = Some (2 ^ 248, pos')"
    then obtain rb pos pos' where "draw_salt rb pos = Some (2 ^ 248, pos')" by blast
    then have "BigInt_of_hex_bytes (randomBytes rb pos 31) = 2 ^ 248"
      by (simp add: draw_salt_first)
    moreover have "BigInt_of_hex_bytes (randomBytes rb pos 31) < 2 ^ 248"
      using BigInt_of_hex_bytes_range [of "randomBytes rb pos 31"]
      by (simp add: length_randomBytes)
    ultimately show False by simp
  qed
  then show ?thesis using below_modulus by simp
qed

section \<open>Properties of the agent\<close>

lemma and_then_ret [simp]: "and_then (ret v) k = k v"
  by (rule ext) (simp add: and_then_def ret_def)

lemma and_then_throw [simp]: "and_then (throw e) k = throw e"
  by (rule ext) (simp add: and_then_def throw_def)

lemma and_then_assoc: "and_then (and_then m k) h = and_then m (\<lambda>v. and_then (k v) h)"
  by (rule ext) (simp add: and_then_def split: prod.splits outcome.splits)

lemma submitOnce_stages:
  "submitOnce w overridePrice =
     and_then (prepare w overridePrice) (\<lambda>(priceResult, proofData).
     and_then (verifyProof w (pd_proof proofData) (pd_publicSignals proofData)) (\<lambda>localOk.
       if \<not> localOk then throw verification_failed
       else after_verification w priceResult proofData))"
proof -
  have assoc: "and_then (and_then (and_then m d) k) h = and_then (and_then m d) (\<lambda>v. and_then (k v) h)"
    for m :: "'x option io" and d :: "'x option \<Rightarrow> 'y io" and k :: "'y \<Rightarrow> 'z io" and h :: "'z \<Rightarrow> 'u io"
    by (rule and_then_assoc)
  show ?thesis
  unfolding submitOnce_def prepare_def assoc
  by (simp add: fetch_step_def archive_pending_def pending_tag_def fallback_ref_def send_def
      conclude_def [abs_def] after_verification_def submission_of_def submission_log_def submit_args_of_def
      verification_failed_def Let_def case_prod_unfold cong: if_cong)
qed


subsection \<open>Steps that add only events of one kind\<close>

lemma onlyI:
  assumes "\<And>s. \<exists>evs. trace (snd (m s)) = trace s @ evs \<and> list_all P evs"
  shows "only P m"
  using assms by (simp add: only_def)

lemma onlyD:
  assumes "only P m" and "m s = (r, s')"
  shows "\<exists>evs. trace s' = trace s @ evs \<and> list_all P evs"
  using assms by (metis only_def snd_conv)

lemma only_mono: "only P m \<Longrightarrow> (\<And>e. P e \<Longrightarrow> Q e) \<Longrightarrow> only Q m"
  unfolding only_def by (metis (mono_tags, lifting) list_all_length)

lemma only_silent: "(\<And>s. trace (snd (m s)) = trace s) \<Longrightarrow> only P m"
  by (simp add: only_def)

lemma only_ret [simp]: "only P (ret v)"
  by (simp add: only_def ret_def)

lemma only_throw [simp]: "only P (throw e)"
  by (simp add: only_def throw_def)

lemma only_lift [simp]: "only P (lift r)"
  by (simp add: only_def lift_def split: sum.splits)

lemma only_defined [simp]: "only P (defined v)"
  by (simp add: defined_def split: option.splits)

lemma only_call: "P ev \<Longrightarrow> only P (call ev answer)"
  by (simp add: only_def call_def split: sum.splits)

lemma only_ask: "P ev \<Longrightarrow> only P (ask ev answer)"
  by (simp add: ask_def only_call)

lemma only_and_then:
  assumes "only P m" and "\<And>v. only P (k v)"
  shows "only P (and_then m k)"
proof (rule onlyI)
  fix s
  obtain r s1 where m: "m s = (r, s1)" by (cases "m s")
  from onlyD [OF assms(1) m] obtain e1 where e1: "trace s1 = trace s @ e1" "list_all P e1"
    by blast
  show "\<exists>evs. trace (snd (and_then m k s)) = trace s @ evs \<and> list_all P evs"
  proof (cases r)
    case (Returns v)
    obtain r2 s2 where k: "k v s1 = (r2, s2)" by (cases "k v s1")
    from onlyD [OF assms(2) k] obtain e2 where "trace s2 = trace s1 @ e2" "list_all P e2"
      by blast
    then have "trace s2 = trace s @ (e1 @ e2) \<and> list_all P (e1 @ e2)" using e1 by simp
    then show ?thesis using m Returns k unfolding and_then_def by (simp del: append_assoc)
  next
    case (Throws e)
    then show ?thesis using m e1 by (auto simp: and_then_def)
  next
    case NoReturn
    then show ?thesis using m e1 by (auto simp: and_then_def)
  qed
qed

lemma only_try_catch:
  assumes "only P m" and "\<And>e. only P (h e)"
  shows "only P (try_catch m h)"
proof (rule onlyI)
  fix s
  obtain r s1 where m: "m s = (r, s1)" by (cases "m s")
  from onlyD [OF assms(1) m] obtain e1 where e1: "trace s1 = trace s @ e1" "list_all P e1"
    by blast
  show "\<exists>evs. trace (snd (try_catch m h s)) = trace s @ evs \<and> list_all P evs"
  proof (cases r)
    case (Returns v)
    then show ?thesis using m e1 by (auto simp: try_catch_def)
  next
    case (Throws e)
    obtain r2 s2 where k: "h e s1 = (r2, s2)" by (cases "h e s1")
    from onlyD [OF assms(2) k] obtain e2 where "trace s2 = trace s1 @ e2" "list_all P e2"
      by blast
    then have "trace s2 = trace s @ (e1 @ e2) \<and> list_all P (e1 @ e2)" using e1 by simp
    then show ?thesis using m Throws k unfolding try_catch_def by (simp del: append_assoc)
  next
    case NoReturn
    then show ?thesis using m e1 by (auto simp: try_catch_def)
  qed
qed

lemma only_retry_from:
  "only P fn \<Longrightarrow> (\<And>n. P (Sleep n)) \<Longrightarrow> only P (retry_from fn attempts i)"
proof (induction fn attempts i rule: retry_from.induct)
  case (1 fn attempts i)
  show ?case
  proof (cases "i \<le> attempts")
    case True
    have "only P (if i = attempts then throw e
                   else and_then (sleep (1000 * 2 ^ i)) (\<lambda>u. retry_from fn attempts (i + 1)))" for e
      using "1.IH" [OF True _ "1.prems"] "1.prems"(2) [of "1000 * 2 ^ i"]
      by (auto intro!: only_and_then only_call simp: sleep_def)
    then show ?thesis
      using True "1.prems"(1)
      by (subst retry_from.simps) (auto intro!: only_try_catch only_and_then)
  next
    case False
    then show ?thesis by (subst retry_from.simps) simp
  qed
qed

lemma only_retry: "only P fn \<Longrightarrow> (\<And>n. P (Sleep n)) \<Longrightarrow> only P (retry fn attempts)"
  by (simp add: retry_def only_retry_from)

lemma only_getProvider_from:
  "(\<And>rpc. P (GetBlockNumber rpc)) \<Longrightarrow> only P (getProvider_from w rpcs)"
  by (induction rpcs) (auto intro!: only_try_catch only_and_then only_call)

lemma only_checkCircuitFiles:
  "(\<And>p. P (ExistsSync p)) \<Longrightarrow> only P (checkCircuitFiles w)"
  by (auto simp: checkCircuitFiles_def intro!: only_and_then only_ask)

lemma only_generateProof: "only is_prepare_event (generateProof w priceUSD ts)"
proof -
  have salt: "only is_prepare_event
                (\<lambda>s. case draw_salt (w_random_byte w) (rng_pos s) of
                        None \<Rightarrow> (NoReturn, s)
                      | Some (salt, pos) \<Rightarrow> (Returns salt, s\<lparr>rng_pos := pos\<rparr>))"
    by (rule only_silent) (simp split: option.splits)
  show ?thesis
    unfolding generateProof_def
    by (intro only_and_then only_checkCircuitFiles only_lift salt)
      (auto intro!: only_ask only_call only_and_then split: option.splits list.splits)
qed

lemma only_verifyProof: "only is_verify_event (verifyProof w proof publicSignals)"
  unfolding verifyProof_def
  by (intro only_and_then only_checkCircuitFiles only_call) simp_all

lemma only_broadcastTx: "only is_archive_event (broadcastTx w)"
  unfolding broadcastTx_def by (intro only_and_then only_call) simp_all

lemma only_ensureBucket: "only is_archive_event (ensureBucket w)"
  unfolding ensureBucket_def
  by (auto intro!: only_try_catch only_and_then only_call only_broadcastTx split: option.splits)

lemma only_remote_upload: "only is_archive_event (remote_upload w name bs)"
  unfolding remote_upload_def
  by (auto intro!: only_and_then only_call only_broadcastTx split: option.splits)

lemma only_uploadProof: "only is_archive_event (uploadProof w proofData txHash)"
  unfolding uploadProof_def Let_def
  by (auto intro!: only_and_then only_call only_ask only_try_catch only_remote_upload)

lemma only_archive_pending: "only is_archive_event (archive_pending w proofData)"
  unfolding archive_pending_def
  by (intro only_try_catch only_and_then only_ensureBucket only_uploadProof only_ret)

lemma only_fetch_step: "only is_prepare_event (fetch_step w overridePrice)"
  unfolding fetch_step_def by (auto intro!: only_call split: option.splits)

lemma only_prepare: "only is_prepare_event (prepare w overridePrice)"
  unfolding prepare_def getProvider_def
  by (intro only_and_then only_retry only_getProvider_from only_fetch_step only_generateProof
        only_defined only_ret) simp_all

lemma only_conclude:
  "only (\<lambda>e. is_archive_event e \<or> e = TxWait tx_hash)
     (conclude w priceResult proofData gfResult tx_hash)"
  unfolding conclude_def
  by (intro only_and_then only_try_catch only_call only_ret
        only_mono [OF only_uploadProof]) simp_all

lemma only_send:
  "only (\<lambda>e. e = SubmitPriceWithProof args \<or> (\<exists>n. e = Sleep n)) (send w args)"
  unfolding send_def
  by (intro only_and_then only_retry only_call only_defined) auto

subsection \<open>Steps that return or throw\<close>

lemma total_ret [simp]: "total (ret v)"
  by (simp add: total_def ret_def)

lemma total_throw [simp]: "total (throw e)"
  by (simp add: total_def throw_def)

lemma total_lift [simp]: "total (lift r)"
  by (simp add: total_def lift_def split: sum.splits)

lemma total_defined [simp]: "total (defined v)"
  by (simp add: defined_def split: option.splits)

lemma total_call [simp]: "total (call ev answer)"
  by (simp add: total_def call_def split: sum.splits)

lemma total_ask [simp]: "total (ask ev answer)"
  by (simp add: ask_def)

lemma total_and_then: "total m \<Longrightarrow> (\<And>v. total (k v)) \<Longrightarrow> total (and_then m k)"
  unfolding total_def and_then_def
  by (auto split: prod.splits outcome.splits) (metis fst_conv)+

lemma total_try_catch: "total m \<Longrightarrow> (\<And>e. total (h e)) \<Longrightarrow> total (try_catch m h)"
  unfolding total_def try_catch_def
  by (auto split: prod.splits outcome.splits) (metis fst_conv)+

lemma total_retry_from: "total fn \<Longrightarrow> total (retry_from fn attempts i)"
proof (induction fn attempts i rule: retry_from.induct)
  case (1 fn attempts i)
  show ?case
  proof (cases "i \<le> attempts")
    case True
    have "total (if i = attempts then throw e
                 else and_then (sleep (1000 * 2 ^ i)) (\<lambda>u. retry_from fn attempts (i + 1)))" for e
      using "1.IH" [OF True _ "1.prems"]
      by (auto intro!: total_and_then simp: sleep_def)
    then show ?thesis
      using True "1.prems"
      by (subst retry_from.simps) (auto intro!: total_try_catch total_and_then)
  next
    case False
    then show ?thesis by (subst retry_from.simps) simp
  qed
qed

lemma total_retry: "total fn \<Longrightarrow> total (retry fn attempts)"
  by (simp add: retry_def total_retry_from)

lemma total_getProvider_from: "total (getProvider_from w rpcs)"
  by (induction rpcs) (auto intro!: total_try_catch total_and_then)

lemma total_generateProof: "total (generateProof w priceUSD ts)"
  by (simp add: total_def generateProof_returns)

lemma total_checkCircuitFiles: "total (checkCircuitFiles w)"
  by (auto simp: checkCircuitFiles_def intro!: total_and_then)

lemma total_verifyProof: "total (verifyProof w proof publicSignals)"
  unfolding verifyProof_def
  by (intro total_and_then total_checkCircuitFiles total_call)

lemma total_broadcastTx: "total (broadcastTx w)"
  unfolding broadcastTx_def by (intro total_and_then total_call)

lemma total_ensureBucket: "total (ensureBucket w)"
  unfolding ensureBucket_def
  by (auto intro!: total_try_catch total_and_then total_broadcastTx split: option.splits)

lemma total_remote_upload: "total (remote_upload w name bs)"
  unfolding remote_upload_def
  by (auto intro!: total_and_then total_broadcastTx split: option.splits)

lemma total_uploadProof: "total (uploadProof w proofData txHash)"
  unfolding uploadProof_def Let_def
  by (auto intro!: total_and_then total_try_catch total_remote_upload)

lemma total_archive_pending: "total (archive_pending w proofData)"
  unfolding archive_pending_def
  by (intro total_try_catch total_and_then total_ensureBucket total_uploadProof total_ret)

lemma total_fetch_step: "total (fetch_step w overridePrice)"
  unfolding fetch_step_def by (auto split: option.splits)

lemma total_prepare: "total (prepare w overridePrice)"
  unfolding prepare_def getProvider_def
  by (intro total_and_then total_retry total_getProvider_from total_fetch_step
        total_generateProof total_defined total_ret)

lemma total_conclude: "total (conclude w priceResult proofData gfResult tx_hash)"
  unfolding conclude_def
  by (intro total_and_then total_try_catch total_call total_uploadProof total_ret)

lemma total_send: "total (send w args)"
  unfolding send_def by (intro total_and_then total_retry total_call total_defined)

lemma total_submitOnce: "total (submitOnce w overridePrice)"
  unfolding submitOnce_stages after_verification_def
  by (auto intro!: total_and_then total_prepare total_verifyProof total_archive_pending
        total_send total_conclude)

subsection \<open>What the local verification leaves in the trace\<close>

lemma verifyProof_Returns:
  assumes "verifyProof w p ps s = (Returns b, s')"
  shows "\<exists>vkey. trace s' = trace s @ [ExistsSync (w_WASM_PATH w), ExistsSync (w_ZKEY_PATH w),
                                      ReadVerificationKey, Groth16Verify vkey ps p]
               \<and> w_readVerificationKey w (length (trace s) + 2) = Inr vkey
               \<and> w_groth16_verify w vkey ps p (length (trace s) + 3) = Inr b"
  using assms
  unfolding verifyProof_def checkCircuitFiles_def and_then_def ask_def call_def ret_def throw_def
  by (auto split: sum.splits if_splits simp: numeral_3_eq_3 numeral_2_eq_2)

lemma verifyProof_Throws_anatomy:
  assumes "verifyProof w p ps s = (Throws e, s')"
  shows "list_all (\<lambda>e. \<not> is_local_verification e) (new_events s s')
         \<or> (\<exists>vkey. new_events s s' = [ExistsSync (w_WASM_PATH w), ExistsSync (w_ZKEY_PATH w),
                                        ReadVerificationKey, Groth16Verify vkey ps p]
                  \<and> w_readVerificationKey w (length (trace s) + 2) = Inr vkey
                  \<and> w_groth16_verify w vkey ps p (length (trace s) + 3) = Inl e)"
  using assms
  unfolding verifyProof_def checkCircuitFiles_def and_then_def ask_def call_def ret_def throw_def
    new_events_def
  by (auto split: sum.splits if_splits simp: numeral_3_eq_3 numeral_2_eq_2)

subsection \<open>The anatomy of a cycle\<close>

lemma submitOnce_unfold:
  "submitOnce w ov s =
     (case prepare w ov s of
        (Returns (pr, pd), s1) \<Rightarrow>
          (case verifyProof w (pd_proof pd) (pd_publicSignals pd) s1 of
             (Returns b, s2) \<Rightarrow>
               if b then after_verification w pr pd s2 else (Throws verification_failed, s2)
           | (Throws e, s2) \<Rightarrow> (Throws e, s2)
           | (NoReturn, s2) \<Rightarrow> (NoReturn, s2))
      | (Throws e, s1) \<Rightarrow> (Throws e, s1)
      | (NoReturn, s1) \<Rightarrow> (NoReturn, s1))"
  by (simp add: submitOnce_stages and_then_def throw_def split: prod.splits outcome.splits)

lemma new_events_append: "trace s' = trace s @ evs \<Longrightarrow> new_events s s' = evs"
  by (simp add: new_events_def)

lemma not_submit_prepare: "is_prepare_event e \<Longrightarrow> \<not> is_submit e"
  by (cases e) auto

lemma not_submit_verify: "is_verify_event e \<Longrightarrow> \<not> is_submit e"
  by (cases e) auto

lemma not_verify_prepare: "is_prepare_event e \<Longrightarrow> \<not> is_local_verification e"
  by (cases e) auto

lemma list_all_mono: "list_all P xs \<Longrightarrow> (\<And>x. P x \<Longrightarrow> Q x) \<Longrightarrow> list_all Q xs"
  by (induction xs) auto

lemma prepare_total: "fst (prepare w ov s) \<noteq> NoReturn"
  using total_prepare [of w ov] by (simp add: total_def)

lemma verifyProof_total: "fst (verifyProof w p ps s) \<noteq> NoReturn"
  using total_verifyProof [of w p ps] by (simp add: total_def)

text \<open>
  A cycle either stops in the preparation, or stops in the local verification (which
  throws or returns false), or passes it and goes on.
\<close>

lemma submitOnce_cases [consumes 1, case_names stopped unverified verified]:
  assumes run: "submitOnce w ov s = (r, s')"
  obtains
    (stopped) e where "r = Throws e" "list_all is_prepare_event (new_events s s')"
  | (unverified) pr pd s1 e e1 e2 where
      "prepare w ov s = (Returns (pr, pd), s1)"
      "verifyProof w (pd_proof pd) (pd_publicSignals pd) s1 = (Throws e, s')
       \<or> verifyProof w (pd_proof pd) (pd_publicSignals pd) s1 = (Returns False, s')
          \<and> e = verification_failed"
      "r = Throws e" "new_events s s' = e1 @ e2"
      "list_all is_prepare_event e1" "list_all is_verify_event e2" "new_events s1 s' = e2"
      "list_all (\<lambda>e. \<not> is_local_verification e) e2
       \<or> (\<exists>vkey. e2 = [ExistsSync (w_WASM_PATH w), ExistsSync (w_ZKEY_PATH w),
                           ReadVerificationKey,
                           Groth16Verify vkey (pd_publicSignals pd) (pd_proof pd)]
             \<and> w_groth16_verify w vkey (pd_publicSignals pd) (pd_proof pd)
                   (length (trace s) + length e1 + 3) \<noteq> Inr True)"
      "trace s1 = trace s @ e1"
  | (verified) pr pd s1 s2 vkey e1 where
      "prepare w ov s = (Returns (pr, pd), s1)"
      "verifyProof w (pd_proof pd) (pd_publicSignals pd) s1 = (Returns True, s2)"
      "after_verification w pr pd s2 = (r, s')"
      "w_groth16_verify w vkey (pd_publicSignals pd) (pd_proof pd)
         (length (trace s) + length e1 + 3) = Inr True"
      "list_all is_prepare_event e1"
      "trace s1 = trace s @ e1"
      "trace s2 = trace s1 @ [ExistsSync (w_WASM_PATH w), ExistsSync (w_ZKEY_PATH w),
                               ReadVerificationKey,
                               Groth16Verify vkey (pd_publicSignals pd) (pd_proof pd)]"
      "w_readVerificationKey w (length (trace s) + length e1 + 2) = Inr vkey"
proof -
  obtain rp s1 where p: "prepare w ov s = (rp, s1)" by (cases "prepare w ov s")
  from onlyD [OF only_prepare p] obtain e1 where e1: "trace s1 = trace s @ e1"
    "list_all is_prepare_event e1" by blast
  show thesis
  proof (cases rp)
    case NoReturn
    then show ?thesis using prepare_total [of w ov s] p by simp
  next
    case (Throws e)
    then have "r = Throws e" "s' = s1" using run p by (simp_all add: submitOnce_unfold)
    then show ?thesis using e1 stopped by (simp add: new_events_append)
  next
    case (Returns x)
    obtain pr pd where x: "x = (pr, pd)" by (cases x)
    obtain rv s2 where v: "verifyProof w (pd_proof pd) (pd_publicSignals pd) s1 = (rv, s2)"
      by (cases "verifyProof w (pd_proof pd) (pd_publicSignals pd) s1")
    from onlyD [OF only_verifyProof v] obtain e2 where e2: "trace s2 = trace s1 @ e2"
      "list_all is_verify_event e2" by blast
    have e12: "new_events s s2 = e1 @ e2" "new_events s1 s2 = e2"
      using e1 e2 by (simp_all add: new_events_def)
    have len: "length (trace s1) + 3 = length (trace s) + length e1 + 3"
      "length (trace s1) + 2 = length (trace s) + length e1 + 2" using e1 by simp_all
    show ?thesis
    proof (cases rv)
      case NoReturn
      then show ?thesis using verifyProof_total [of w "pd_proof pd" "pd_publicSignals pd" s1] v
        by simp
    next
      case (Throws e)
      then have "r = Throws e" "s' = s2"
        using run p v Returns x by (simp_all add: submitOnce_unfold)
      moreover have "list_all (\<lambda>e. \<not> is_local_verification e) e2
       \<or> (\<exists>vkey. e2 = [ExistsSync (w_WASM_PATH w), ExistsSync (w_ZKEY_PATH w),
                           ReadVerificationKey,
                           Groth16Verify vkey (pd_publicSignals pd) (pd_proof pd)]
             \<and> w_groth16_verify w vkey (pd_publicSignals pd) (pd_proof pd)
                   (length (trace s) + length e1 + 3) \<noteq> Inr True)"
        using verifyProof_Throws_anatomy [of w "pd_proof pd" "pd_publicSignals pd" s1 e s2]
          v Throws e12(2) len by auto
      ultimately show ?thesis
        using unverified [of pr pd s1 e e1 e2] p v Returns x Throws e1 e2 e12
        by simp
    next
      case R: (Returns b)
      show ?thesis
      proof (cases b)
        case False
        then have "r = Throws verification_failed" "s' = s2"
          using run p v Returns x R by (simp_all add: submitOnce_unfold)
        moreover have "\<exists>vkey. e2 = [ExistsSync (w_WASM_PATH w), ExistsSync (w_ZKEY_PATH w),
                           ReadVerificationKey,
                           Groth16Verify vkey (pd_publicSignals pd) (pd_proof pd)]
             \<and> w_groth16_verify w vkey (pd_publicSignals pd) (pd_proof pd)
                   (length (trace s) + length e1 + 3) \<noteq> Inr True"
          using verifyProof_Returns [of w "pd_proof pd" "pd_publicSignals pd" s1 b s2]
            v R False e2(1) len by auto
        ultimately show ?thesis
          using unverified [of pr pd s1 verification_failed e1 e2] p v Returns x R False e1 e2 e12
          by simp
      next
        case True
        then have a: "after_verification w pr pd s2 = (r, s')"
          using run p v Returns x R by (simp add: submitOnce_unfold)
        from verifyProof_Returns [of w "pd_proof pd" "pd_publicSignals pd" s1 b s2] v R
        obtain vkey where vk:
          "trace s2 = trace s1 @ [ExistsSync (w_WASM_PATH w), ExistsSync (w_ZKEY_PATH w),
                                   ReadVerificationKey,
                                   Groth16Verify vkey (pd_publicSignals pd) (pd_proof pd)]"
          "w_readVerificationKey w (length (trace s1) + 2) = Inr vkey"
          "w_groth16_verify w vkey (pd_publicSignals pd) (pd_proof pd) (length (trace s1) + 3)
             = Inr b"
          by auto
        show ?thesis
          using verified [of pr pd s1 s2 vkey e1] p v Returns x R True a vk e1 len
          by simp
      qed
    qed
  qed
qed

lemma only_after_verification:
  "only (\<lambda>e. is_archive_event e \<or> (\<exists>n. e = Sleep n) \<or> (\<exists>h. e = TxWait h)
             \<or> (\<exists>args. e = SubmitPriceWithProof args))
     (after_verification w priceResult proofData)"
  unfolding after_verification_def
  by (intro only_and_then only_lift only_mono [OF only_archive_pending]
        only_mono [OF only_send] only_mono [OF only_conclude]) auto

lemma in_set_list_all: "list_all P xs \<Longrightarrow> x \<in> set xs \<Longrightarrow> P x"
  by (simp add: list_all_iff)

lemma prepare_events_no_submit:
  "list_all is_prepare_event xs \<Longrightarrow> list_all (\<lambda>e. \<not> is_submit e) xs"
  using list_all_mono [of is_prepare_event xs "\<lambda>e. \<not> is_submit e"] not_submit_prepare
  by blast

lemma verify_events_no_submit:
  "list_all is_verify_event xs \<Longrightarrow> list_all (\<lambda>e. \<not> is_submit e) xs"
  using list_all_mono [of is_verify_event xs "\<lambda>e. \<not> is_submit e"] not_submit_verify
  by blast

subsection \<open>Retrying three times\<close>

lemma retry_3:
  "retry fn 3 s =
     (case fn s of
        (Returns v, s1) \<Rightarrow> (Returns (Some v), s1)
      | (NoReturn, s1) \<Rightarrow> (NoReturn, s1)
      | (Throws e1, s1) \<Rightarrow>
          (case fn (s1\<lparr>trace := trace s1 @ [Sleep 2000]\<rparr>) of
             (Returns v, s2) \<Rightarrow> (Returns (Some v), s2)
           | (NoReturn, s2) \<Rightarrow> (NoReturn, s2)
           | (Throws e2, s2) \<Rightarrow>
               (case fn (s2\<lparr>trace := trace s2 @ [Sleep 4000]\<rparr>) of
                  (Returns v, s3) \<Rightarrow> (Returns (Some v), s3)
                | (NoReturn, s3) \<Rightarrow> (NoReturn, s3)
                | (Throws e3, s3) \<Rightarrow> (Throws e3, s3))))"
proof -
  have three: "retry_from fn 3 (Suc (Suc (Suc 0))) s0 =
      (case fn s0 of (Returns v, s3) \<Rightarrow> (Returns (Some v), s3)
                | (NoReturn, s3) \<Rightarrow> (NoReturn, s3)
                | (Throws e3, s3) \<Rightarrow> (Throws e3, s3))" for s0
    by (subst retry_from.simps)
      (simp add: try_catch_def and_then_def ret_def throw_def split: prod.splits outcome.splits)
  have two: "retry_from fn 3 (Suc (Suc 0)) s0 =
      (case fn s0 of (Returns v, s2) \<Rightarrow> (Returns (Some v), s2)
           | (NoReturn, s2) \<Rightarrow> (NoReturn, s2)
           | (Throws e2, s2) \<Rightarrow> retry_from fn 3 (Suc (Suc (Suc 0))) (s2\<lparr>trace := trace s2 @ [Sleep 4000]\<rparr>))" for s0
    by (subst retry_from.simps)
      (simp add: try_catch_def and_then_def ret_def throw_def sleep_def call_def
        split: prod.splits outcome.splits)
  have one: "retry_from fn 3 (Suc 0) s0 =
      (case fn s0 of (Returns v, s1) \<Rightarrow> (Returns (Some v), s1)
           | (NoReturn, s1) \<Rightarrow> (NoReturn, s1)
           | (Throws e1, s1) \<Rightarrow> retry_from fn 3 (Suc (Suc 0)) (s1\<lparr>trace := trace s1 @ [Sleep 2000]\<rparr>))" for s0
    by (subst retry_from.simps)
      (simp add: try_catch_def and_then_def ret_def throw_def sleep_def call_def
        split: prod.splits outcome.splits)
  have "retry fn 3 s = retry_from fn 3 (Suc 0) s" by (simp add: retry_def)
  then show ?thesis
    unfolding one two three by (simp split: prod.splits outcome.splits)
qed

lemma send_outcomes:
  "send w args s =
     (case w_submitPriceWithProof w args (length (trace s)) of
        Inr h \<Rightarrow> (Returns h, s\<lparr>trace := trace s @ [SubmitPriceWithProof args]\<rparr>)
      | Inl e1 \<Rightarrow>
          (case w_submitPriceWithProof w args (length (trace s) + 2) of
             Inr h \<Rightarrow>
               (Returns h, s\<lparr>trace := trace s @ [SubmitPriceWithProof args, Sleep 2000,
                                                   SubmitPriceWithProof args]\<rparr>)
           | Inl e2 \<Rightarrow>
               (case w_submitPriceWithProof w args (length (trace s) + 4) of
                  Inr h \<Rightarrow>
                    (Returns h, s\<lparr>trace := trace s @ [SubmitPriceWithProof args, Sleep 2000,
                                                        SubmitPriceWithProof args, Sleep 4000,
                                                        SubmitPriceWithProof args]\<rparr>)
                | Inl e3 \<Rightarrow>
                    (Throws e3, s\<lparr>trace := trace s @ [SubmitPriceWithProof args, Sleep 2000,
                                                        SubmitPriceWithProof args, Sleep 4000,
                                                        SubmitPriceWithProof args]\<rparr>))))"
proof -
  have n: "length (trace s) + 2 = Suc (Suc (length (trace s)))"
    "length (trace s) + 4 = Suc (Suc (Suc (Suc (length (trace s)))))" by simp_all
  show ?thesis
    unfolding send_def and_then_def retry_3 n
    by (simp add: call_def defined_def ret_def throw_def split: sum.splits)
qed

lemma after_verification_unfold:
  "after_verification w pr pd s2 =
     (case parse_proof (pd_proof pd) of
        Inl e \<Rightarrow> (Throws e, s2)
      | Inr parsed \<Rightarrow>
          (case archive_pending w pd s2 of
             (Returns gf, s3) \<Rightarrow>
               (case send w (submit_args_of pd parsed (fst gf)) s3 of
                  (Returns h, s4) \<Rightarrow> conclude w pr pd gf h s4
                | (Throws e, s4) \<Rightarrow> (Throws e, s4)
                | (NoReturn, s4) \<Rightarrow> (NoReturn, s4))
           | (Throws e, s3) \<Rightarrow> (Throws e, s3)
           | (NoReturn, s3) \<Rightarrow> (NoReturn, s3)))"
  by (simp add: after_verification_def and_then_def lift_def
      split: sum.splits prod.splits outcome.splits)

subsection \<open>The events of the stages after the verification\<close>

lemma send_events:
  assumes "send w args s = (rs, s4)"
  shows "\<exists>es. trace s4 = trace s @ es
              \<and> list_all (\<lambda>e. e = SubmitPriceWithProof args \<or> e = Sleep 2000 \<or> e = Sleep 4000) es
              \<and> length (filter is_submit es) \<le> 3
              \<and> filter is_wait es = []
              \<and> SubmitPriceWithProof args \<in> set es
              \<and> rs \<noteq> NoReturn"
  using assms unfolding send_outcomes
  by (auto split: sum.splits)

lemma archive_pending_Returns:
  "\<exists>gf s3. archive_pending w pd s = (Returns gf, s3)"
proof -
  let ?inner = "and_then (ensureBucket w) (\<lambda>b.
        and_then (uploadProof w pd (pending_tag pd)) (\<lambda>r.
        ret (up_greenfieldRef r, up_onGreenfield r)))"
  have "total ?inner"
    by (intro total_and_then total_ensureBucket total_uploadProof total_ret)
  then have "fst (?inner s) \<noteq> NoReturn" by (simp add: total_def)
  then show ?thesis
    unfolding archive_pending_def try_catch_def
    by (cases "?inner s"; cases "fst (?inner s)") (auto simp: ret_def)
qed

lemma archive_events_no_chain:
  "list_all is_archive_event xs \<Longrightarrow> filter is_submit xs = [] \<and> filter is_wait xs = []"
proof (induction xs)
  case Nil
  then show ?case by simp
next
  case (Cons x xs)
  then show ?case by (cases x) auto
qed

lemma prepare_events_no_chain:
  "list_all is_prepare_event xs \<Longrightarrow> filter is_submit xs = [] \<and> filter is_wait xs = []"
proof (induction xs)
  case Nil
  then show ?case by simp
next
  case (Cons x xs)
  then show ?case by (cases x) auto
qed

lemma verify_events_no_chain:
  "list_all is_verify_event xs \<Longrightarrow> filter is_submit xs = [] \<and> filter is_wait xs = []"
proof (induction xs)
  case Nil
  then show ?case by simp
next
  case (Cons x xs)
  then show ?case by (cases x) auto
qed

lemma conclude_events:
  assumes "conclude w pr pd gf h s = (r, s')"
  shows "\<exists>ec. trace s' = trace s @ [TxWait h] @ ec \<and> list_all is_archive_event ec"
proof -
  let ?rest = "\<lambda>rcpt.
     and_then (try_catch (and_then (uploadProof w pd h) (\<lambda>r. ret ())) (\<lambda>e. ret ())) (\<lambda>u.
     and_then (call (WriteFile (submission_log w pd)
                       (w_JSON_stringify_submission w (submission_of pr pd gf h rcpt)))
                 (w_writeFileSync w (submission_log w pd)
                    (w_JSON_stringify_submission w (submission_of pr pd gf h rcpt)))) (\<lambda>u.
     ret (submission_of pr pd gf h rcpt)))"
  have rest: "only is_archive_event (?rest rcpt)" for rcpt
    by (intro only_and_then only_try_catch only_call only_ret only_uploadProof) simp_all
  let ?s1 = "s\<lparr>trace := trace s @ [TxWait h]\<rparr>"
  show ?thesis
  proof (cases "w_tx_wait w h (length (trace s))")
    case (Inl e)
    then have "s' = ?s1" using assms by (simp add: conclude_def and_then_def call_def)
    then show ?thesis by simp
  next
    case (Inr rcpt)
    then have "?rest rcpt ?s1 = (r, s')"
      using assms by (simp add: conclude_def and_then_def call_def)
    from onlyD [OF rest this] show ?thesis by auto
  qed
qed

lemma conclude_wait_fails:
  "w_tx_wait w h (length (trace s)) = Inl e
   \<Longrightarrow> conclude w pr pd gf h s = (Throws e, s\<lparr>trace := trace s @ [TxWait h]\<rparr>)"
  by (simp add: conclude_def and_then_def call_def)

lemma and_then_Returns:
  assumes "and_then m f s = (Returns v, s')"
  obtains x s1 where "m s = (Returns x, s1)" "f x s1 = (Returns v, s')"
  using assms unfolding and_then_def
  by (cases "m s"; cases "fst (m s)") auto

lemma conclude_Returns:
  assumes "conclude w pr pd gf h s = (Returns sub, s')"
  shows "\<exists>rcpt. sub = submission_of pr pd gf h rcpt"
proof -
  from assms obtain rcpt s1 where
    rest: "and_then (try_catch (and_then (uploadProof w pd h) (\<lambda>r. ret ())) (\<lambda>e. ret ())) (\<lambda>u.
     and_then (call (WriteFile (submission_log w pd)
                       (w_JSON_stringify_submission w (submission_of pr pd gf h rcpt)))
                 (w_writeFileSync w (submission_log w pd)
                    (w_JSON_stringify_submission w (submission_of pr pd gf h rcpt)))) (\<lambda>u.
     ret (submission_of pr pd gf h rcpt))) s1 = (Returns sub, s')"
    unfolding conclude_def by (rule and_then_Returns)
  from rest obtain u s2 where
    "and_then (call (WriteFile (submission_log w pd)
                       (w_JSON_stringify_submission w (submission_of pr pd gf h rcpt)))
                 (w_writeFileSync w (submission_log w pd)
                    (w_JSON_stringify_submission w (submission_of pr pd gf h rcpt)))) (\<lambda>u.
     ret (submission_of pr pd gf h rcpt)) s2 = (Returns sub, s')"
    by (rule and_then_Returns)
  then obtain u2 s3 where "ret (submission_of pr pd gf h rcpt) s3 = (Returns sub, s')"
    by (rule and_then_Returns)
  then show ?thesis by (auto simp: ret_def)
qed

text \<open>Everything that can happen once the proof has passed the local verification.\<close>

lemma after_verification_cases [consumes 1, case_names unparsed unsent sent]:
  assumes run: "after_verification w pr pd s2 = (r, s')"
  obtains
    (unparsed) e where "parse_proof (pd_proof pd) = Inl e" "r = Throws e" "s' = s2"
  | (unsent) parsed gf s3 e ea es where
      "parse_proof (pd_proof pd) = Inr parsed"
      "archive_pending w pd s2 = (Returns gf, s3)"
      "send w (submit_args_of pd parsed (fst gf)) s3 = (Throws e, s')"
      "r = Throws e"
      "trace s3 = trace s2 @ ea" "list_all is_archive_event ea"
      "trace s' = trace s3 @ es"
      "list_all (\<lambda>e. e = SubmitPriceWithProof (submit_args_of pd parsed (fst gf))
                      \<or> e = Sleep 2000 \<or> e = Sleep 4000) es"
      "length (filter is_submit es) \<le> 3" "filter is_wait es = []"
  | (sent) parsed gf s3 h s4 ea es ec where
      "parse_proof (pd_proof pd) = Inr parsed"
      "archive_pending w pd s2 = (Returns gf, s3)"
      "send w (submit_args_of pd parsed (fst gf)) s3 = (Returns h, s4)"
      "conclude w pr pd gf h s4 = (r, s')"
      "trace s3 = trace s2 @ ea" "list_all is_archive_event ea"
      "trace s4 = trace s3 @ es"
      "list_all (\<lambda>e. e = SubmitPriceWithProof (submit_args_of pd parsed (fst gf))
                      \<or> e = Sleep 2000 \<or> e = Sleep 4000) es"
      "length (filter is_submit es) \<le> 3" "filter is_wait es = []"
      "SubmitPriceWithProof (submit_args_of pd parsed (fst gf)) \<in> set es"
      "trace s' = trace s4 @ [TxWait h] @ ec" "list_all is_archive_event ec"
proof (cases "parse_proof (pd_proof pd)")
  case (Inl e)
  then show ?thesis using run unparsed by (simp add: after_verification_unfold)
next
  case (Inr parsed)
  obtain gf s3 where a: "archive_pending w pd s2 = (Returns gf, s3)"
    using archive_pending_Returns by blast
  from onlyD [OF only_archive_pending a] obtain ea where ea: "trace s3 = trace s2 @ ea"
    "list_all is_archive_event ea" by blast
  obtain rs s4 where sd: "send w (submit_args_of pd parsed (fst gf)) s3 = (rs, s4)"
    by (cases "send w (submit_args_of pd parsed (fst gf)) s3")
  from send_events [OF sd] obtain es where es: "trace s4 = trace s3 @ es"
    "list_all (\<lambda>e. e = SubmitPriceWithProof (submit_args_of pd parsed (fst gf))
                      \<or> e = Sleep 2000 \<or> e = Sleep 4000) es"
    "length (filter is_submit es) \<le> 3" "filter is_wait es = []"
    "SubmitPriceWithProof (submit_args_of pd parsed (fst gf)) \<in> set es" "rs \<noteq> NoReturn"
    by blast
  show ?thesis
  proof (cases rs)
    case NoReturn
    then show ?thesis using es(6) by simp
  next
    case (Throws e)
    then have "r = Throws e" "s' = s4"
      using run Inr a sd by (simp_all add: after_verification_unfold)
    then show ?thesis using unsent [of parsed gf s3 e ea es] Inr a sd Throws ea es by simp
  next
    case (Returns h)
    then have c: "conclude w pr pd gf h s4 = (r, s')"
      using run Inr a sd by (simp add: after_verification_unfold)
    from conclude_events [OF c] obtain ec where "trace s' = trace s4 @ [TxWait h] @ ec"
      "list_all is_archive_event ec" by blast
    then show ?thesis using sent [of parsed gf s3 h s4 ea es ec] Inr a sd Returns c ea es by simp
  qed
qed

lemma after_verification_chain_bound:
  assumes "after_verification w pr pd s2 = (r, s')"
  shows "length (filter is_submit (new_events s2 s')) \<le> 3
         \<and> length (filter is_wait (new_events s2 s')) \<le> 1"
  using assms
proof (cases rule: after_verification_cases)
  case (unparsed e)
  then show ?thesis by (simp add: new_events_def)
next
  case (unsent parsed gf s3 e ea es)
  have "new_events s2 s' = ea @ es"
    using unsent(5,7) by (simp add: new_events_def)
  then show ?thesis
    using archive_events_no_chain [OF unsent(6)] unsent(9,10) by simp
next
  case (sent parsed gf s3 h s4 ea es ec)
  have "new_events s2 s' = ea @ es @ [TxWait h] @ ec"
    using sent(5,7,12) by (simp add: new_events_def)
  then show ?thesis
    using archive_events_no_chain [OF sent(6)] archive_events_no_chain [OF sent(13)] sent(9,10)
    by simp
qed

lemma submitOnce_chain_bound:
  "length (filter is_submit (new_events s (snd (submitOnce w ov s)))) \<le> 3
   \<and> length (filter is_wait (new_events s (snd (submitOnce w ov s)))) \<le> 1"
proof -
  obtain r s' where run: "submitOnce w ov s = (r, s')" by (cases "submitOnce w ov s")
  have "length (filter is_submit (new_events s s')) \<le> 3
        \<and> length (filter is_wait (new_events s s')) \<le> 1"
    using run
  proof (cases rule: submitOnce_cases)
    case (stopped e)
    then show ?thesis using prepare_events_no_chain by simp
  next
    case (unverified pr pd s1 e e1 e2)
    then show ?thesis
      using prepare_events_no_chain [of e1] verify_events_no_chain [of e2] by simp
  next
    case (verified pr pd s1 s2 vkey e1)
    obtain e4 where e4: "trace s' = trace s2 @ e4"
      using onlyD [OF only_after_verification verified(3)] by blast
    have n: "new_events s2 s' = e4" using e4 by (simp add: new_events_def)
    have "new_events s s' = e1 @ [ExistsSync (w_WASM_PATH w), ExistsSync (w_ZKEY_PATH w),
                               ReadVerificationKey,
                               Groth16Verify vkey (pd_publicSignals pd) (pd_proof pd)] @ e4"
      using e4 verified(6,7) by (simp add: new_events_def)
    then show ?thesis
      using prepare_events_no_chain [OF verified(5)]
        after_verification_chain_bound [OF verified(3)] n by simp
  qed
  then show ?thesis using run by simp
qed

subsection \<open>Where the arguments of a submission come from\<close>

lemma parse_proof_Inr:
  "parse_proof p = Inr parsed \<longleftrightarrow>
     2 \<le> length (pi_a p) \<and> 2 \<le> length (pi_b p) \<and> 2 \<le> length (pi_b p ! 0)
     \<and> 2 \<le> length (pi_b p ! 1) \<and> 2 \<le> length (pi_c p)
     \<and> parsed = ([pi_a p ! 0, pi_a p ! 1],
                 [[pi_b p ! 0 ! 1, pi_b p ! 0 ! 0], [pi_b p ! 1 ! 1, pi_b p ! 1 ! 0]],
                 [pi_c p ! 0, pi_c p ! 1])"
  unfolding parse_proof_def sum_bind_def element_def
  by (auto split: if_splits)

lemma retry_from_Returns:
  "retry_from fn attempts i s = (Returns v, s')
   \<Longrightarrow> v = None \<or> (\<exists>x s0. v = Some x \<and> fn s0 = (Returns x, s'))"
proof (induction fn attempts i arbitrary: s rule: retry_from.induct)
  case (1 fn attempts i)
  show ?case
  proof (cases "i \<le> attempts")
    case False
    then show ?thesis using "1.prems" by (subst (asm) retry_from.simps) (simp add: ret_def)
  next
    case True
    obtain r0 s1 where f: "fn s = (r0, s1)" by (cases "fn s")
    show ?thesis
    proof (cases r0)
      case (Returns x)
      then show ?thesis
        using "1.prems" True f
        by (subst (asm) retry_from.simps) (auto simp: try_catch_def and_then_def ret_def)
    next
      case NoReturn
      then show ?thesis
        using "1.prems" True f
        by (subst (asm) retry_from.simps) (simp add: try_catch_def and_then_def ret_def)
    next
      case (Throws e)
      show ?thesis
      proof (cases "i = attempts")
        case True
        then show ?thesis
          using "1.prems" f Throws
          by (subst (asm) retry_from.simps) (simp add: try_catch_def and_then_def throw_def)
      next
        case False
        have "retry_from fn attempts (i + 1) (s1\<lparr>trace := trace s1 @ [Sleep (1000 * 2 ^ i)]\<rparr>)
                = (Returns v, s')"
          using "1.prems" f Throws True False
          by (subst (asm) retry_from.simps)
             (simp add: try_catch_def and_then_def sleep_def call_def)
        from "1.IH" [OF True False this] show ?thesis .
      qed
    qed
  qed
qed

lemma retry_defined_Returns:
  assumes r: "retry fn attempts s = (Returns v, s1)"
    and d: "defined v s1 = (Returns x, s')"
  shows "\<exists>s0. fn s0 = (Returns x, s')"
proof -
  from d have "v = Some x" "s1 = s'"
    by (auto simp: defined_def ret_def throw_def split: option.splits)
  with retry_from_Returns [of fn attempts 1 s v s1] r show ?thesis
    by (auto simp: retry_def)
qed

lemma generateProof_Returns:
  assumes "generateProof w priceUSD ts s = (Returns pd, s')"
  shows "\<exists>t. w_fullProve w (pd_price pd) (pd_timestamp pd) (pd_salt pd) t
               = Inr (pd_proof pd, pd_publicSignals pd)"
proof -
  from assms obtain u s1 price s2 timestamp s3 salt s4 answer s5 where
    fp: "call (FullProve price timestamp salt) (w_fullProve w price timestamp salt) s4
           = (Returns answer, s5)"
    and rest: "(case answer of (proof, publicSignals) \<Rightarrow>
                 and_then (case publicSignals of
                             [] \<Rightarrow> throw (TypeError ''Cannot convert undefined to a BigInt'')
                           | c # rest \<Rightarrow>
                               ret (''0x'' @ padStart 64 (CHR ''0'') (BigInt_toString16 c)))
                   (\<lambda>commitment.
                 and_then (call (ExportSolidityCallData proof publicSignals)
                             (w_exportSolidityCallData w proof publicSignals)) (\<lambda>calldata.
                 ret \<lparr>pd_proof = proof, pd_publicSignals = publicSignals,
                      pd_commitment = commitment,
                      pd_salt = salt, pd_price = price, pd_timestamp = timestamp,
                      pd_priceUSD = priceUSD, pd_calldataRaw = calldata,
                      pd_sources = None\<rparr>))) s5 = (Returns pd, s')"
    unfolding generateProof_def by (elim and_then_Returns)
  obtain groth publicSignals where answer: "answer = (groth, publicSignals)" by (cases answer)
  from rest obtain commitment calldata s7 where
    "ret \<lparr>pd_proof = groth, pd_publicSignals = publicSignals, pd_commitment = commitment,
          pd_salt = salt, pd_price = price, pd_timestamp = timestamp,
          pd_priceUSD = priceUSD, pd_calldataRaw = calldata,
          pd_sources = None\<rparr> s7 = (Returns pd, s')"
    unfolding answer prod.case by (elim and_then_Returns)
  then have pd: "pd = \<lparr>pd_proof = groth, pd_publicSignals = publicSignals,
          pd_commitment = commitment,
          pd_salt = salt, pd_price = price, pd_timestamp = timestamp,
          pd_priceUSD = priceUSD, pd_calldataRaw = calldata, pd_sources = None\<rparr>"
    by (simp add: ret_def)
  from fp have "w_fullProve w price timestamp salt (length (trace s4)) = Inr answer"
    by (simp add: call_def split: sum.splits)
  then show ?thesis using pd answer by auto
qed

lemma prepare_Returns:
  assumes "prepare w ov s = (Returns (pr, pd), s1)"
  shows "\<exists>t. w_fullProve w (pd_price pd) (pd_timestamp pd) (pd_salt pd) t
               = Inr (pd_proof pd, pd_publicSignals pd)"
proof -
  from assms obtain priceResult sb v sc generated sd where
    g: "retry (generateProof w (ag_price priceResult) None) 2 sb = (Returns v, sc)"
    and d: "defined v sc = (Returns generated, sd)"
    and r: "ret (priceResult,
                 generated\<lparr>pd_sources := Some (map (source_summary w) (ag_sources priceResult))\<rparr>)
              sd = (Returns (pr, pd), s1)"
    unfolding prepare_def by (elim and_then_Returns)
  from retry_defined_Returns [OF g d] obtain s0 where
    "generateProof w (ag_price priceResult) None s0 = (Returns generated, sd)" by blast
  from generateProof_Returns [OF this] obtain t where
    "w_fullProve w (pd_price generated) (pd_timestamp generated) (pd_salt generated) t
       = Inr (pd_proof generated, pd_publicSignals generated)" by blast
  moreover from r have
    "pd = generated\<lparr>pd_sources := Some (map (source_summary w) (ag_sources priceResult))\<rparr>"
    by (auto simp: ret_def)
  ultimately show ?thesis by force
qed

lemma not_submit_archive: "is_archive_event e \<Longrightarrow> e \<noteq> SubmitPriceWithProof args"
  by (cases e) auto

lemma after_verification_submissions:
  assumes run: "after_verification w pr pd s2 = (r, s')"
    and sub: "SubmitPriceWithProof args \<in> set (new_events s2 s')"
  shows "\<exists>parsed gf s3. parse_proof (pd_proof pd) = Inr parsed
           \<and> archive_pending w pd s2 = (Returns gf, s3)
           \<and> args = submit_args_of pd parsed (fst gf)"
  using run
proof (cases rule: after_verification_cases)
  case (unparsed e)
  then show ?thesis using sub by (simp add: new_events_def)
next
  case (unsent parsed gf s3 e ea es)
  have "new_events s2 s' = ea @ es"
    using unsent(5,7) by (simp add: new_events_def)
  moreover have "SubmitPriceWithProof args \<notin> set ea"
    using in_set_list_all [OF unsent(6)] not_submit_archive by blast
  ultimately have "SubmitPriceWithProof args \<in> set es" using sub by simp
  from in_set_list_all [OF unsent(8) this]
  have "args = submit_args_of pd parsed (fst gf)" by simp
  then show ?thesis using unsent(1,2) by blast
next
  case (sent parsed gf s3 h s4 ea es ec)
  have "new_events s2 s' = ea @ es @ [TxWait h] @ ec"
    using sent(5,7,12) by (simp add: new_events_def)
  moreover have "SubmitPriceWithProof args \<notin> set ea"
    using in_set_list_all [OF sent(6)] not_submit_archive by blast
  moreover have "SubmitPriceWithProof args \<notin> set ec"
    using in_set_list_all [OF sent(13)] not_submit_archive by blast
  ultimately have "SubmitPriceWithProof args \<in> set es" using sub by simp
  from in_set_list_all [OF sent(8) this]
  have "args = submit_args_of pd parsed (fst gf)" by simp
  then show ?thesis using sent(1,2) by blast
qed

lemma submitOnce_submissions:
  assumes run: "submitOnce w ov s = (r, s')"
    and sub: "SubmitPriceWithProof args \<in> set (new_events s s')"
  shows "\<exists>pr pd s1 s2 parsed gf s3.
           prepare w ov s = (Returns (pr, pd), s1)
           \<and> verifyProof w (pd_proof pd) (pd_publicSignals pd) s1 = (Returns True, s2)
           \<and> after_verification w pr pd s2 = (r, s')
           \<and> parse_proof (pd_proof pd) = Inr parsed
           \<and> archive_pending w pd s2 = (Returns gf, s3)
           \<and> args = submit_args_of pd parsed (fst gf)"
  using run
proof (cases rule: submitOnce_cases)
  case (stopped e)
  then show ?thesis
    using sub in_set_list_all [OF prepare_events_no_submit [OF stopped(2)], of "SubmitPriceWithProof args"]
    by simp
next
  case (unverified pr pd s1 e e1 e2)
  have "list_all (\<lambda>e. \<not> is_submit e) (new_events s s')"
    unfolding unverified(4)
    using prepare_events_no_submit [OF unverified(5)] verify_events_no_submit [OF unverified(6)]
    by simp
  from in_set_list_all [OF this sub] show ?thesis by simp
next
  case (verified pr pd s1 s2 vkey e1)
  obtain e4 where e4: "trace s' = trace s2 @ e4"
    using onlyD [OF only_after_verification verified(3)] by blast
  have n: "new_events s2 s' = e4" using e4 by (simp add: new_events_def)
  have "new_events s s' = e1 @ [ExistsSync (w_WASM_PATH w), ExistsSync (w_ZKEY_PATH w),
                             ReadVerificationKey,
                               Groth16Verify vkey (pd_publicSignals pd) (pd_proof pd)] @ e4"
    using e4 verified(6,7) by (simp add: new_events_def)
  moreover have "SubmitPriceWithProof args \<notin> set e1"
    using in_set_list_all [OF prepare_events_no_submit [OF verified(5)], of "SubmitPriceWithProof args"]
    by auto
  ultimately have "SubmitPriceWithProof args \<in> set (new_events s2 s')"
    using sub n by simp
  from after_verification_submissions [OF verified(3) this] verified(1,2,3)
  show ?thesis by blast
qed

subsection \<open>What \<open>uploadProof\<close> does\<close>

lemma only_remote_broadcastTx: "only is_remote (broadcastTx w)"
  unfolding broadcastTx_def by (intro only_and_then only_call) simp_all

lemma only_remote_remote_upload: "only is_remote (remote_upload w name bs)"
  unfolding remote_upload_def
  by (auto intro!: only_and_then only_call only_lift only_ret only_throw only_remote_broadcastTx
           split: option.splits)

lemma only_remote_ensureBucket: "only is_remote (ensureBucket w)"
  unfolding ensureBucket_def
  by (auto intro!: only_try_catch only_and_then only_call only_ret only_throw
                   only_remote_broadcastTx split: option.splits)

lemma ensureBucket_Returns: "\<exists>b s'. ensureBucket w s = (Returns b, s')"
proof (cases "w_sdk_client w")
  case False
  then have "ensureBucket w s = (Returns False, s)" by (simp add: ensureBucket_def ret_def)
  then show ?thesis by blast
next
  case True
  let ?create = "and_then (call GetStorageProviders (w_getStorageProviders w)) (\<lambda>spList.
                  case extractSpAddr (primarySp spList) of
                    None \<Rightarrow> throw (Error ''SP addr not found'')
                  | Some spAddr \<Rightarrow>
                      and_then (call (CreateBucket spAddr) (w_createBucket w spAddr)) (\<lambda>tx.
                      and_then (broadcastTx w) (\<lambda>res. ret True)))"
  have t: "total ?create"
    by (auto intro!: total_and_then total_broadcastTx split: option.splits)
  have c: "\<exists>b s'. try_catch ?create (\<lambda>e2. ret False) s1 = (Returns b, s')" for s1
    using t [unfolded total_def, rule_format, of s1]
    unfolding try_catch_def
    by (cases "?create s1"; cases "fst (?create s1)") (auto simp: ret_def)
  show ?thesis
  proof (cases "w_headBucket w (length (trace s))")
    case (Inr u)
    then have "ensureBucket w s = (Returns True, s\<lparr>trace := trace s @ [HeadBucket]\<rparr>)"
      using True by (simp add: ensureBucket_def try_catch_def and_then_def call_def ret_def)
    then show ?thesis by blast
  next
    case (Inl e)
    then have "ensureBucket w s
                 = try_catch ?create (\<lambda>e2. ret False) (s\<lparr>trace := trace s @ [HeadBucket]\<rparr>)"
      using True by (simp add: ensureBucket_def try_catch_def [of "and_then (call HeadBucket (w_headBucket w)) (\<lambda>u. ret True)"] and_then_def [of "call HeadBucket (w_headBucket w)"] call_def)
    then show ?thesis using c by simp
  qed
qed

lemma uploadProof_unfold:
  "uploadProof w pd h s =
     (let name = object_name pd h;
          dir = w_LOCAL_DIR w;
          payload = w_JSON_stringify w
                      (record_of w pd h (w_toISOString w (w_Date_now w (length (trace s)))))
      in case w_mkdirSync w dir (length (trace s) + 1) of
           Inl e \<Rightarrow> (Throws e, s\<lparr>trace := trace s @ [ReadClock, MkdirSync dir]\<rparr>)
         | Inr u \<Rightarrow>
             (case w_writeFileSync w (path_join dir name) payload (length (trace s) + 2) of
                Inl e \<Rightarrow>
                  (Throws e, s\<lparr>trace := trace s @ [ReadClock, MkdirSync dir,
                                                     WriteFile (path_join dir name) payload]\<rparr>)
              | Inr u \<Rightarrow>
                  (if w_sdk_client w
                   then (case remote_upload w name (toUtf8Bytes payload)
                                (s\<lparr>trace := trace s @ [ReadClock, MkdirSync dir,
                                                       WriteFile (path_join dir name) payload]\<rparr>) of
                           (Returns b, s3) \<Rightarrow> (Returns (entry_of w name b), s3)
                         | (Throws e, s3) \<Rightarrow> (Returns (entry_of w name False), s3)
                         | (NoReturn, s3) \<Rightarrow> (NoReturn, s3))
                   else (Returns (entry_of w name False),
                         s\<lparr>trace := trace s @ [ReadClock, MkdirSync dir,
                                                WriteFile (path_join dir name) payload]\<rparr>))))"
  by (simp add: uploadProof_def Let_def and_then_def ask_def call_def try_catch_def ret_def
        object_name_def record_of_def entry_of_def
      split: sum.splits prod.splits outcome.splits)

lemma remote_upload_Returns:
  "remote_upload w name bs s = (Returns b, s') \<Longrightarrow> b"
  unfolding remote_upload_def
  by (elim and_then_Returns) (auto simp: ret_def throw_def split: option.splits elim!: and_then_Returns)

lemma object_name_eq: "object_name pd h = object_name pd h' \<longleftrightarrow> take 10 h = take 10 h'"
  by (simp add: object_name_def)

lemma pending_differs:
  assumes "take 2 h = ''0x''"
  shows "take 10 h \<noteq> take 10 (pending_tag pd)"
proof -
  from assms obtain rest where "h = CHR ''0'' # CHR ''x'' # rest"
    by (cases h; cases "tl h") auto
  then show ?thesis by (simp add: pending_tag_def)
qed

lemma fallback_differs:
  "''veris-proof-'' @ BigInt_toString (pd_timestamp pd) \<noteq> object_name pd h"
proof
  assume "''veris-proof-'' @ BigInt_toString (pd_timestamp pd) = object_name pd h"
  then have "length (''veris-proof-'' @ BigInt_toString (pd_timestamp pd))
               = length (object_name pd h)" by simp
  then show False by (simp add: object_name_def)
qed

subsection \<open>The reference of a cycle\<close>

lemma uploadProof_Returns:
  assumes "uploadProof w pd h s = (Returns res, s')"
  shows "up_objectName res = object_name pd h
         \<and> up_greenfieldRef res = w_keccak256 w (toUtf8Bytes (object_name pd h))"
  using assms
  by (auto simp: uploadProof_unfold Let_def entry_of_def
           split: sum.splits if_splits prod.splits outcome.splits)

lemma archive_pending_ref:
  assumes "archive_pending w pd s = (Returns gf, s3)"
  shows "\<exists>b s1 out. ensureBucket w s = (Returns b, s1)
           \<and> uploadProof w pd (pending_tag pd) s1 = (out, s3)
           \<and> out \<noteq> NoReturn
           \<and> fst gf = (case out of
                         Returns res \<Rightarrow>
                           w_keccak256 w (toUtf8Bytes (object_name pd (pending_tag pd)))
                       | Throws e \<Rightarrow> fallback_ref w pd
                       | NoReturn \<Rightarrow> fallback_ref w pd)"
proof -
  obtain b s1 where eb: "ensureBucket w s = (Returns b, s1)"
    using ensureBucket_Returns by blast
  obtain out s2 where up: "uploadProof w pd (pending_tag pd) s1 = (out, s2)"
    by (cases "uploadProof w pd (pending_tag pd) s1")
  have nr: "out \<noteq> NoReturn"
    using total_uploadProof [of w pd "pending_tag pd"] up
    by (auto simp: total_def dest: spec [of _ s1])
  have "s3 = s2 \<and> fst gf = (case out of
                         Returns res \<Rightarrow>
                           w_keccak256 w (toUtf8Bytes (object_name pd (pending_tag pd)))
                       | Throws e \<Rightarrow> fallback_ref w pd
                       | NoReturn \<Rightarrow> fallback_ref w pd)"
  proof (cases out)
    case (Returns res)
    then show ?thesis
      using assms eb up uploadProof_Returns [of w pd "pending_tag pd" s1 res s2]
      by (auto simp: archive_pending_def try_catch_def and_then_def ret_def)
  next
    case (Throws e)
    then show ?thesis
      using assms eb up
      by (auto simp: archive_pending_def try_catch_def and_then_def ret_def)
  next
    case NoReturn
    then show ?thesis using nr by simp
  qed
  then show ?thesis using eb up nr by blast
qed

lemma conclude_Returns_anatomy:
  assumes "conclude w pr pd gf h s = (Returns sub, s')"
  shows "\<exists>rcpt out s6.
           w_tx_wait w h (length (trace s)) = Inr rcpt
           \<and> sub = submission_of pr pd gf h rcpt
           \<and> uploadProof w pd h (s\<lparr>trace := trace s @ [TxWait h]\<rparr>) = (out, s6)
           \<and> out \<noteq> NoReturn
           \<and> s' = s6\<lparr>trace := trace s6 @ [WriteFile (submission_log w pd)
                                              (w_JSON_stringify_submission w sub)]\<rparr>"
proof -
  let ?s5 = "s\<lparr>trace := trace s @ [TxWait h]\<rparr>"
  obtain out s6 where up: "uploadProof w pd h ?s5 = (out, s6)"
    by (cases "uploadProof w pd h ?s5")
  have nr: "out \<noteq> NoReturn"
    using total_uploadProof [of w pd h] up by (auto simp: total_def dest: spec [of _ ?s5])
  show ?thesis
  proof (cases "w_tx_wait w h (length (trace s))")
    case (Inl e)
    then show ?thesis using assms by (simp add: conclude_wait_fails)
  next
    case (Inr rcpt)
    let ?sub = "submission_of pr pd gf h rcpt"
    have tc: "try_catch (and_then (uploadProof w pd h) (\<lambda>r. ret ())) (\<lambda>e. ret ()) ?s5
                = (Returns (), s6)"
      using up nr by (cases out) (simp_all add: try_catch_def and_then_def ret_def)
    have "conclude w pr pd gf h s =
            and_then (call (WriteFile (submission_log w pd) (w_JSON_stringify_submission w ?sub))
                        (w_writeFileSync w (submission_log w pd)
                           (w_JSON_stringify_submission w ?sub)))
              (\<lambda>u. ret ?sub) s6"
      using Inr tc
      by (simp add: conclude_def
            and_then_def [of "call (TxWait h) (w_tx_wait w h)"]
            and_then_def [of "try_catch (and_then (uploadProof w pd h) (\<lambda>r. ret ())) (\<lambda>e. ret ())"]
            call_def [of "TxWait h"])
    with assms have "sub = ?sub \<and> s' = s6\<lparr>trace := trace s6 @ [WriteFile (submission_log w pd)
                                              (w_JSON_stringify_submission w ?sub)]\<rparr>"
      by (auto simp: and_then_def call_def ret_def split: sum.splits)
    then show ?thesis using Inr up nr by blast
  qed
qed

lemma submitOnce_Returns_anatomy:
  assumes run: "submitOnce w ov s = (Returns sub, s')"
  shows "\<exists>pr pd s1 s2 parsed gf s3 h s4.
           prepare w ov s = (Returns (pr, pd), s1)
           \<and> verifyProof w (pd_proof pd) (pd_publicSignals pd) s1 = (Returns True, s2)
           \<and> parse_proof (pd_proof pd) = Inr parsed
           \<and> archive_pending w pd s2 = (Returns gf, s3)
           \<and> send w (submit_args_of pd parsed (fst gf)) s3 = (Returns h, s4)
           \<and> conclude w pr pd gf h s4 = (Returns sub, s')
           \<and> SubmitPriceWithProof (submit_args_of pd parsed (fst gf)) \<in> set (new_events s s')"
  using run
proof (cases rule: submitOnce_cases)
  case (stopped e)
  then show ?thesis by simp
next
  case (unverified pr pd s1 e e1 e2)
  then show ?thesis by simp
next
  case (verified pr pd s1 s2 vkey e1)
  from verified(3) show ?thesis
  proof (cases rule: after_verification_cases)
    case (unparsed e)
    then show ?thesis by simp
  next
    case (unsent parsed gf s3 e ea es)
    then show ?thesis by simp
  next
    case (sent parsed gf s3 h s4 ea es ec)
    have "new_events s s' = e1 @ [ExistsSync (w_WASM_PATH w), ExistsSync (w_ZKEY_PATH w),
                               ReadVerificationKey,
                               Groth16Verify vkey (pd_publicSignals pd) (pd_proof pd)]
                              @ ea @ es @ [TxWait h] @ ec"
      using verified(6,7) sent(5,7,12) by (simp add: new_events_def)
    then have "SubmitPriceWithProof (submit_args_of pd parsed (fst gf)) \<in> set (new_events s s')"
      using sent(11) by simp
    then show ?thesis using verified(1,2) sent(1,2,3,4) by blast
  qed
qed

subsection \<open>The place of the local verification in a trace\<close>

lemma split_unique:
  assumes "xs @ [x] @ ys = xs' @ [x'] @ ys'"
    and "P x'"
    and "list_all (\<lambda>e. \<not> P e) xs"
    and "list_all (\<lambda>e. \<not> P e) ys"
  shows "xs' = xs \<and> x' = x \<and> ys' = ys"
  using assms
proof (induction xs arbitrary: xs')
  case Nil
  show ?case
  proof (cases xs')
    case Nil
    then show ?thesis using Nil.prems(1) by simp
  next
    case (Cons a t)
    then have "ys = t @ [x'] @ ys'" using Nil.prems(1) by simp
    then have "x' \<in> set ys" by simp
    then show ?thesis using Nil.prems(2,4) by (simp add: list_all_iff)
  qed
next
  case (Cons a as)
  show ?case
  proof (cases xs')
    case Nil
    then have "a = x'" using Cons.prems(1) by simp
    then show ?thesis using Cons.prems(2,3) by simp
  next
    case (Cons b t)
    then have "b = a" and eq: "as @ [x] @ ys = t @ [x'] @ ys'"
      using Cons.prems(1) by simp_all
    have "list_all (\<lambda>e. \<not> P e) as" using Cons.prems(3) by simp
    from Cons.IH [OF eq Cons.prems(2) this Cons.prems(4)] have "t = as \<and> x' = x \<and> ys' = ys" .
    then show ?thesis using Cons \<open>b = a\<close> by simp
  qed
qed

lemma prepare_events_no_verification:
  "list_all is_prepare_event xs \<Longrightarrow> list_all (\<lambda>e. \<not> is_local_verification e) xs"
  using list_all_mono [of is_prepare_event xs "\<lambda>e. \<not> is_local_verification e"]
    not_verify_prepare
  by blast

lemma after_verification_no_verification:
  assumes "after_verification w pr pd s2 = (r, s')"
  shows "list_all (\<lambda>e. \<not> is_local_verification e) (new_events s2 s')"
proof -
  from onlyD [OF only_after_verification assms] obtain evs where
    evs: "trace s' = trace s2 @ evs"
    "list_all (\<lambda>e. is_archive_event e \<or> (\<exists>n. e = Sleep n) \<or> (\<exists>h. e = TxWait h)
                    \<or> (\<exists>args. e = SubmitPriceWithProof args)) evs"
    by blast
  have "\<not> is_local_verification e"
    if "is_archive_event e \<or> (\<exists>n. e = Sleep n) \<or> (\<exists>h. e = TxWait h)
        \<or> (\<exists>args. e = SubmitPriceWithProof args)" for e
    using that by (cases e) auto
  then have "list_all (\<lambda>e. \<not> is_local_verification e) evs"
    by (rule list_all_mono [OF evs(2)])
  then show ?thesis using evs(1) by (simp add: new_events_def)
qed

subsection \<open>The example worlds, run\<close>

lemmas io_defs = and_then_def try_catch_def call_def ask_def ret_def throw_def lift_def defined_def
  sleep_def

lemma agg: "fetchAggregatedPrice no_number scenario_prices None =
  Inr \<lparr>ag_price = Fin 350,
        ag_sources =
          [\<lparr>sr_name = ''Binance'', sr_price = Some (Fin 350), sr_ok = True, sr_error = None\<rparr>,
           \<lparr>sr_name = ''Coinbase'', sr_price = Some (Fin 351), sr_ok = True, sr_error = None\<rparr>,
           \<lparr>sr_name = ''Kraken'', sr_price = Some (Fin (699 / 2)), sr_ok = True, sr_error = None\<rparr>,
           \<lparr>sr_name = ''CoinGecko'', sr_price = Some (Fin 500), sr_ok = True, sr_error = None\<rparr>],
        ag_validSources =
          Some
           [\<lparr>sr_name = ''Binance'', sr_price = Some (Fin 350), sr_ok = True, sr_error = None\<rparr>,
            \<lparr>sr_name = ''Coinbase'', sr_price = Some (Fin 351), sr_ok = True, sr_error = None\<rparr>,
            \<lparr>sr_name = ''Kraken'', sr_price = Some (Fin (699 / 2)), sr_ok = True, sr_error = None\<rparr>],
        ag_spread = Fin 29, ag_validCount = 3, ag_override = False\<rparr>"
proof -
  have a: "map (fetchOne scenario_prices) SOURCES =
          [\<lparr>sr_name = ''Binance'', sr_price = Some (Fin 350), sr_ok = True, sr_error = None\<rparr>,
           \<lparr>sr_name = ''Coinbase'', sr_price = Some (Fin 351), sr_ok = True, sr_error = None\<rparr>,
           \<lparr>sr_name = ''Kraken'', sr_price = Some (Fin (699 / 2)), sr_ok = True, sr_error = None\<rparr>,
           \<lparr>sr_name = ''CoinGecko'', sr_price = Some (Fin 500), sr_ok = True, sr_error = None\<rparr>]"
    by code_simp
  have b: "map (ok_result scenario_prices) [''Binance'', ''Coinbase'', ''Kraken''] =
           [\<lparr>sr_name = ''Binance'', sr_price = Some (Fin 350), sr_ok = True, sr_error = None\<rparr>,
            \<lparr>sr_name = ''Coinbase'', sr_price = Some (Fin 351), sr_ok = True, sr_error = None\<rparr>,
            \<lparr>sr_name = ''Kraken'', sr_price = Some (Fin (699 / 2)), sr_ok = True, sr_error = None\<rparr>]"
    by code_simp
  show ?thesis
    unfolding fetchAggregatedPrice_None scenario_successful scenario_kept scenario_median
      scenario_spread a b
    by simp
qed

lemma salt0: "BigInt_of_hex_bytes (randomBytes (\<lambda>i. of_nat i) pos 31) = BigInt_of_hex_bytes (map of_nat [pos..<pos+31])"
  by (simp add: randomBytes_def)

lemma salt1: "BigInt_of_hex_bytes (map of_nat [0..<31])
           = 6955983830576953300627822532721063284149725145715624041201556132732190"
    by code_simp

lemma hex0: "padStart 64 (CHR ''0'') (BigInt_toString16 777)
   = ''0000000000000000000000000000000000000000000000000000000000000309''" by code_simp
lemma price0: "\<lfloor>(70000000001 :: rat) / 2\<rfloor> = 35000000000"
  by code_simp
lemma price1: "double_of 35000000000 = Fin 35000000000"
  by (simp add: double_eval)
lemma sp0: "primarySp [\<lparr>sp_moniker = Some ''QA-node'', sp_addr = Some ''0xsp1''\<rparr>,
                  \<lparr>sp_moniker = Some ''NodeReal'', sp_addr = Some ''0xsp2''\<rparr>]
   = Some \<lparr>sp_moniker = Some ''NodeReal'', sp_addr = Some ''0xsp2''\<rparr>"
  by code_simp
lemma dec0: "BigInt_toString 1700000000 = ''1700000000''" by code_simp

lemma computeExpectChecksums_None:
  "length bs \<notin> {1, 2, 5} \<Longrightarrow> computeExpectChecksums sha None bs = 
      Inr [digest_bytes (sha bs),
                digest_bytes (sha (spec_shard bs 0)), digest_bytes (sha (spec_shard bs 1)),
                digest_bytes (sha (spec_shard bs 2)), digest_bytes (sha (spec_shard bs 3)),
                digest_bytes (sha (spec_parity bs)),
                digest_bytes (sha (spec_flip_first (spec_parity bs)))]"
  using manualChecksums_ok [of bs sha] by (simp add: computeExpectChecksums_def)

lemmas run_defs = retry_def retry_from.simps getProvider_def RPC_LIST_def io_defs 
     initial_state_def fetch_step_def generateProof_def checkCircuitFiles_def draw_salt_first
     BigInt_of_number_def source_summary_def price_of_def
     verifyProof_def parse_proof_def element_def sum_bind_def ensureBucket_def uploadProof_def remote_upload_def
     broadcastTx_def extractSpAddr_def path_join_def
     computeExpectChecksums_None toUtf8Bytes_def

lemma calm_run:
  "fst (submitOnce calm_world None initial_state) = Returns calm_submission
   \<and> filter is_chain (new_events initial_state (snd (submitOnce calm_world None initial_state)))
       = [SubmitPriceWithProof calm_args, TxWait ''0x5e1f0123456789abcdef'']"
  by (simp add: submitOnce_def calm_world_def run_defs agg salt0 salt1 hex0 dec0 price0 price1 sp0 example_proof_def
      Let_def new_events_def calm_submission_def calm_args_def calm_ref_def)

lemma rejecting_run:
  "fst (submitOnce rejecting_world None initial_state) = Throws verification_failed
   \<and> filter (\<lambda>e. is_chain e \<or> is_local_verification e)
        (new_events initial_state (snd (submitOnce rejecting_world None initial_state)))
       = [Groth16Verify ''vkey'' [777, 35000000000, 1700000000] example_proof]"
  by (simp add: submitOnce_def rejecting_world_def calm_world_def run_defs agg salt0 salt1 hex0 dec0
      price0 price1 sp0 example_proof_def Let_def new_events_def verification_failed_def)

lemma reverting_run:
  "fst (submitOnce reverting_world None initial_state)
     = Throws (EthersError ''CALL_EXCEPTION'' ''execution reverted'')
   \<and> filter (\<lambda>e. is_chain e \<or> e = Sleep 2000 \<or> e = Sleep 4000)
        (new_events initial_state (snd (submitOnce reverting_world None initial_state)))
       = [SubmitPriceWithProof calm_args, Sleep 2000,
          SubmitPriceWithProof calm_args, Sleep 4000,
          SubmitPriceWithProof calm_args]
   \<and> filter is_submit
        (new_events initial_state (snd (submitOnce reverting_world None initial_state)))
       = [SubmitPriceWithProof calm_args, SubmitPriceWithProof calm_args,
          SubmitPriceWithProof calm_args]"
  by (simp add: submitOnce_def reverting_world_def calm_world_def run_defs agg salt0 salt1 hex0 dec0
      price0 price1 sp0 example_proof_def Let_def new_events_def calm_args_def calm_ref_def)

lemma readonly_run:
  "fst (submitOnce readonly_dir_world None initial_state) = Returns fallback_submission
   \<and> filter is_chain
        (new_events initial_state (snd (submitOnce readonly_dir_world None initial_state)))
       = [SubmitPriceWithProof
            (calm_args\<lparr>sa_greenfieldRef := toy_keccak (toUtf8Bytes ''veris-proof-1700000000'')\<rparr>),
          TxWait ''0x5e1f0123456789abcdef'']"
  by (simp add: submitOnce_def readonly_dir_world_def calm_world_def run_defs agg salt0 salt1 hex0
      dec0 price0 price1 sp0 example_proof_def Let_def new_events_def calm_submission_def calm_args_def
      calm_ref_def fallback_submission_def)

lemma toy_keccak_names:
  "toy_keccak (toUtf8Bytes ''veris-proof-1700000000-pending-17.json'')
     \<noteq> toy_keccak (toUtf8Bytes ''veris-proof-1700000000-0x5e1f0123.json'')"
  "toy_keccak (toUtf8Bytes ''veris-proof-1700000000'')
     \<noteq> toy_keccak (toUtf8Bytes ''veris-proof-1700000000-0x5e1f0123.json'')"
  "toy_keccak (toUtf8Bytes ''veris-proof-1700000000-pending-17.json'')
     \<noteq> toy_keccak (toUtf8Bytes ''veris-proof-1700000000'')"
  by code_simp+

lemma rejecting_trace:
  "new_events initial_state (snd (submitOnce rejecting_world None initial_state))
     = rejected_before @ [Groth16Verify ''vkey'' calm_signals example_proof] @ []"
  by (simp add: submitOnce_def rejecting_world_def calm_world_def run_defs agg salt0 salt1 hex0 dec0
      price0 price1 sp0 example_proof_def Let_def new_events_def verification_failed_def
      rejected_before_def calm_signals_def)

text \<open>
  C1. In every execution of \<open>submitOnce\<close>, a call of \<open>submitPriceWithProof\<close> happens only
  after the proof engine, called on the verification key just read and on the public
  signals and the proof of this cycle's proof data, has answered true, with no submission
  before that call; and the proof submitted is the one verified: the arguments of the
  submission are built from those same proof data. And wherever the trace holds a call of
  the engine's verification that has answered false, \<open>submitOnce\<close> throws "Local proof
  verification FAILED ... aborting submission", that call is the last event of the cycle,
  and the cycle attempts no submission.
\<close>

theorem C1_no_submission_without_local_verification:
  assumes run: "submitOnce w overridePrice s = (r, s')"
  shows "(SubmitPriceWithProof args \<in> set (new_events s s') \<longrightarrow>
            (\<exists>pr pd s1 before after vkey parsed ref.
               prepare w overridePrice s = (Returns (pr, pd), s1)
               \<and> new_events s s'
                   = before @ [ReadVerificationKey,
                               Groth16Verify vkey (pd_publicSignals pd) (pd_proof pd)] @ after
               \<and> list_all (\<lambda>e. \<not> is_submit e) before
               \<and> w_readVerificationKey w (length (trace s) + length before) = Inr vkey
               \<and> w_groth16_verify w vkey (pd_publicSignals pd) (pd_proof pd)
                   (length (trace s) + length before + 1) = Inr True
               \<and> parse_proof (pd_proof pd) = Inr parsed
               \<and> args = submit_args_of pd parsed ref))
         \<and> (new_events s s' = before' @ [Groth16Verify vkey' publicSignals' proof'] @ after'
              \<and> w_groth16_verify w vkey' publicSignals' proof' (length (trace s) + length before')
                  = Inr False \<longrightarrow>
              r = Throws verification_failed \<and> after' = []
              \<and> list_all (\<lambda>e. \<not> is_submit e) (new_events s s'))"
proof (rule conjI; rule impI)
  assume sub: "SubmitPriceWithProof args \<in> set (new_events s s')"
  from submitOnce_submissions [OF run sub] obtain pr pd s1 s2 parsed gf s3 where
    p: "prepare w overridePrice s = (Returns (pr, pd), s1)"
    and v: "verifyProof w (pd_proof pd) (pd_publicSignals pd) s1 = (Returns True, s2)"
    and a: "after_verification w pr pd s2 = (r, s')"
    and q: "parse_proof (pd_proof pd) = Inr parsed"
    and g: "archive_pending w pd s2 = (Returns gf, s3)"
    and args: "args = submit_args_of pd parsed (fst gf)"
    by blast
  from onlyD [OF only_prepare p] obtain e1 where e1: "trace s1 = trace s @ e1"
    "list_all is_prepare_event e1" by blast
  from verifyProof_Returns [OF v] obtain vkey where
    t2: "trace s2 = trace s1 @ [ExistsSync (w_WASM_PATH w), ExistsSync (w_ZKEY_PATH w),
                                 ReadVerificationKey,
                                 Groth16Verify vkey (pd_publicSignals pd) (pd_proof pd)]"
    and k: "w_readVerificationKey w (length (trace s1) + 2) = Inr vkey"
    and ok: "w_groth16_verify w vkey (pd_publicSignals pd) (pd_proof pd) (length (trace s1) + 3)
               = Inr True"
    by blast
  from onlyD [OF only_after_verification a] obtain e4 where e4: "trace s' = trace s2 @ e4"
    by blast
  let ?before = "e1 @ [ExistsSync (w_WASM_PATH w), ExistsSync (w_ZKEY_PATH w)]"
  have n: "new_events s s'
             = ?before @ [ReadVerificationKey,
                          Groth16Verify vkey (pd_publicSignals pd) (pd_proof pd)] @ e4"
    using e1(1) t2 e4 by (simp add: new_events_def)
  have b: "list_all (\<lambda>e. \<not> is_submit e) ?before"
    using prepare_events_no_submit [OF e1(2)] by simp
  have l: "length (trace s) + length ?before = length (trace s1) + 2"
    "length (trace s) + length ?before + 1 = length (trace s1) + 3"
    using e1(1) by simp_all
  show "\<exists>pr pd s1 before after vkey parsed ref.
               prepare w overridePrice s = (Returns (pr, pd), s1)
               \<and> new_events s s'
                   = before @ [ReadVerificationKey,
                               Groth16Verify vkey (pd_publicSignals pd) (pd_proof pd)] @ after
               \<and> list_all (\<lambda>e. \<not> is_submit e) before
               \<and> w_readVerificationKey w (length (trace s) + length before) = Inr vkey
               \<and> w_groth16_verify w vkey (pd_publicSignals pd) (pd_proof pd)
                   (length (trace s) + length before + 1) = Inr True
               \<and> parse_proof (pd_proof pd) = Inr parsed
               \<and> args = submit_args_of pd parsed ref"
    using p n b k ok q args unfolding l [symmetric] by blast
next
  assume h: "new_events s s' = before' @ [Groth16Verify vkey' publicSignals' proof'] @ after'
              \<and> w_groth16_verify w vkey' publicSignals' proof' (length (trace s) + length before')
                  = Inr False"
  then have split: "new_events s s' = before' @ [Groth16Verify vkey' publicSignals' proof'] @ after'"
    and false: "w_groth16_verify w vkey' publicSignals' proof' (length (trace s) + length before')
                  = Inr False"
    by simp_all
  have g: "is_local_verification (Groth16Verify vkey' publicSignals' proof')" by simp
  have mem: "Groth16Verify vkey' publicSignals' proof' \<in> set (new_events s s')"
    unfolding split by simp
  from run
  show "r = Throws verification_failed \<and> after' = []
        \<and> list_all (\<lambda>e. \<not> is_submit e) (new_events s s')"
  proof (cases rule: submitOnce_cases)
    case (stopped e)
    from in_set_list_all [OF prepare_events_no_verification [OF stopped(2)] mem]
    show ?thesis by simp
  next
    case (unverified pr pd s1 e e1 e2)
    have ns: "list_all (\<lambda>e. \<not> is_submit e) (new_events s s')"
      unfolding unverified(4)
      using prepare_events_no_submit [OF unverified(5)] verify_events_no_submit [OF unverified(6)]
      by simp
    have n1: "list_all (\<lambda>e. \<not> is_local_verification e) e1"
      by (rule prepare_events_no_verification [OF unverified(5)])
    from unverified(8) show ?thesis
    proof
      assume "list_all (\<lambda>e. \<not> is_local_verification e) e2"
      then have "list_all (\<lambda>e. \<not> is_local_verification e) (new_events s s')"
        unfolding unverified(4) using n1 by simp
      from in_set_list_all [OF this mem] show ?thesis by simp
    next
      assume "\<exists>vkey. e2 = [ExistsSync (w_WASM_PATH w), ExistsSync (w_ZKEY_PATH w),
                           ReadVerificationKey,
                           Groth16Verify vkey (pd_publicSignals pd) (pd_proof pd)]
             \<and> w_groth16_verify w vkey (pd_publicSignals pd) (pd_proof pd)
                   (length (trace s) + length e1 + 3) \<noteq> Inr True"
      then obtain vkey where
        e2: "e2 = [ExistsSync (w_WASM_PATH w), ExistsSync (w_ZKEY_PATH w), ReadVerificationKey,
                   Groth16Verify vkey (pd_publicSignals pd) (pd_proof pd)]"
        by blast
      let ?xs = "e1 @ [ExistsSync (w_WASM_PATH w), ExistsSync (w_ZKEY_PATH w),
                       ReadVerificationKey]"
      have eq: "?xs @ [Groth16Verify vkey (pd_publicSignals pd) (pd_proof pd)] @ []
                  = before' @ [Groth16Verify vkey' publicSignals' proof'] @ after'"
        using split unverified(4) e2 by simp
      have xs: "list_all (\<lambda>e. \<not> is_local_verification e) ?xs" using n1 by simp
      from split_unique [OF eq g xs] have u: "before' = ?xs" "after' = []"
        "vkey' = vkey" "publicSignals' = pd_publicSignals pd" "proof' = pd_proof pd"
        by simp_all
      have "length (trace s) + length before' = length (trace s1) + 3"
        using u(1) unverified(9) by simp
      then have at: "w_groth16_verify w vkey (pd_publicSignals pd) (pd_proof pd)
                       (length (trace s1) + 3) = Inr False"
        using false u(3,4,5) by (simp only:)
      have "r = Throws verification_failed"
      proof -
        from unverified(2) show ?thesis
        proof
          assume t: "verifyProof w (pd_proof pd) (pd_publicSignals pd) s1 = (Throws e, s')"
          from verifyProof_Throws_anatomy [OF t] show ?thesis
          proof
            assume "list_all (\<lambda>e. \<not> is_local_verification e) (new_events s1 s')"
            then show ?thesis using unverified(7) e2 by simp
          next
            assume "\<exists>vkey. new_events s1 s'
                       = [ExistsSync (w_WASM_PATH w), ExistsSync (w_ZKEY_PATH w),
                          ReadVerificationKey,
                          Groth16Verify vkey (pd_publicSignals pd) (pd_proof pd)]
                     \<and> w_readVerificationKey w (length (trace s1) + 2) = Inr vkey
                     \<and> w_groth16_verify w vkey (pd_publicSignals pd) (pd_proof pd)
                          (length (trace s1) + 3) = Inl e"
            then show ?thesis using unverified(7) e2 at by auto
          qed
        next
          assume "verifyProof w (pd_proof pd) (pd_publicSignals pd) s1 = (Returns False, s')
                  \<and> e = verification_failed"
          then show ?thesis using unverified(3) by simp
        qed
      qed
      then show ?thesis using u(2) ns by simp
    qed
  next
    case (verified pr pd s1 s2 vkey e1)
    obtain e4 where e4: "trace s' = trace s2 @ e4"
      using onlyD [OF only_after_verification verified(3)] by blast
    have n4: "list_all (\<lambda>e. \<not> is_local_verification e) e4"
      using after_verification_no_verification [OF verified(3)] e4 by (simp add: new_events_def)
    let ?xs = "e1 @ [ExistsSync (w_WASM_PATH w), ExistsSync (w_ZKEY_PATH w),
                     ReadVerificationKey]"
    have eq: "?xs @ [Groth16Verify vkey (pd_publicSignals pd) (pd_proof pd)] @ e4
                = before' @ [Groth16Verify vkey' publicSignals' proof'] @ after'"
      using split verified(6,7) e4 by (simp add: new_events_def)
    have xs: "list_all (\<lambda>e. \<not> is_local_verification e) ?xs"
      using prepare_events_no_verification [OF verified(5)] by simp
    from split_unique [OF eq g xs n4] have u: "before' = ?xs"
      "vkey' = vkey" "publicSignals' = pd_publicSignals pd" "proof' = pd_proof pd"
      by simp_all
    have "length (trace s) + length before' = length (trace s) + length e1 + 3"
      using u(1) by simp
    then have "w_groth16_verify w vkey (pd_publicSignals pd) (pd_proof pd)
                 (length (trace s) + length e1 + 3) = Inr False"
      using false u(2,3,4) by (simp only:)
    then show ?thesis using verified(4) by simp
  qed
qed

theorem C1_no_submission_without_local_verification_witness:
  "SubmitPriceWithProof calm_args
     \<in> set (new_events initial_state (snd (submitOnce calm_world None initial_state)))
   \<and> (\<exists>pr pd s1 before after vkey parsed ref.
         prepare calm_world None initial_state = (Returns (pr, pd), s1)
         \<and> new_events initial_state (snd (submitOnce calm_world None initial_state))
             = before @ [ReadVerificationKey,
                         Groth16Verify vkey (pd_publicSignals pd) (pd_proof pd)] @ after
         \<and> list_all (\<lambda>e. \<not> is_submit e) before
         \<and> w_readVerificationKey calm_world (length before) = Inr vkey
         \<and> w_groth16_verify calm_world vkey (pd_publicSignals pd) (pd_proof pd)
              (length before + 1) = Inr True
         \<and> parse_proof (pd_proof pd) = Inr parsed
         \<and> calm_args = submit_args_of pd parsed ref)
   \<and> new_events initial_state (snd (submitOnce rejecting_world None initial_state))
       = rejected_before @ [Groth16Verify ''vkey'' calm_signals example_proof] @ []
   \<and> w_groth16_verify rejecting_world ''vkey'' calm_signals example_proof
        (length rejected_before) = Inr False
   \<and> fst (submitOnce rejecting_world None initial_state) = Throws verification_failed
   \<and> list_all (\<lambda>e. \<not> is_submit e)
        (new_events initial_state (snd (submitOnce rejecting_world None initial_state)))"
proof -
  let ?calm = "submitOnce calm_world None initial_state"
  let ?rej = "submitOnce rejecting_world None initial_state"
  have "SubmitPriceWithProof calm_args
          \<in> set (filter is_chain (new_events initial_state (snd ?calm)))"
    using calm_run by simp
  then have a: "SubmitPriceWithProof calm_args \<in> set (new_events initial_state (snd ?calm))"
    by simp
  have z: "length (trace initial_state) = 0" by (simp add: initial_state_def)
  have r1: "?calm = (fst ?calm, snd ?calm)" by simp
  have r2: "?rej = (fst ?rej, snd ?rej)" by simp
  from C1_no_submission_without_local_verification [OF r1, where args = calm_args] a
  have b: "\<exists>pr pd s1 before after vkey parsed ref.
         prepare calm_world None initial_state = (Returns (pr, pd), s1)
         \<and> new_events initial_state (snd ?calm)
             = before @ [ReadVerificationKey,
                         Groth16Verify vkey (pd_publicSignals pd) (pd_proof pd)] @ after
         \<and> list_all (\<lambda>e. \<not> is_submit e) before
         \<and> w_readVerificationKey calm_world (length before) = Inr vkey
         \<and> w_groth16_verify calm_world vkey (pd_publicSignals pd) (pd_proof pd)
              (length before + 1) = Inr True
         \<and> parse_proof (pd_proof pd) = Inr parsed
         \<and> calm_args = submit_args_of pd parsed ref"
    unfolding z by simp
  have c: "new_events initial_state (snd ?rej)
             = rejected_before @ [Groth16Verify ''vkey'' calm_signals example_proof] @ []"
    by (rule rejecting_trace)
  have d: "w_groth16_verify rejecting_world ''vkey'' calm_signals example_proof
             (length (trace initial_state) + length rejected_before) = Inr False"
    by (simp add: rejecting_world_def)
  from C1_no_submission_without_local_verification
         [OF r2, where ?before' = rejected_before and ?vkey' = "''vkey''"
            and ?publicSignals' = calm_signals and ?proof' = example_proof and ?after' = "[]"]
       c d
  have e: "fst ?rej = Throws verification_failed
           \<and> list_all (\<lambda>e. \<not> is_submit e) (new_events initial_state (snd ?rej))"
    by blast
  from a b c d e show ?thesis unfolding z by simp
qed

text \<open>
  C5 (as the code has it). The call of \<open>submitPriceWithProof\<close> is attempted up to three
  times, whatever the error: after a first failure the agent waits 2000 ms and calls
  again, after a second it waits 4000 ms and calls again, and only the error of the third
  failure is thrown; a revert is retried like any other error. A cycle makes at most three
  submit calls and awaits at most one confirmation, and an error while awaiting the
  confirmation is thrown at once, with no retry.
\<close>

theorem C5_every_error_of_the_submit_call_is_retried:
  "send w args s =
     (case w_submitPriceWithProof w args (length (trace s)) of
        Inr h \<Rightarrow> (Returns h, s\<lparr>trace := trace s @ [SubmitPriceWithProof args]\<rparr>)
      | Inl e1 \<Rightarrow>
          (case w_submitPriceWithProof w args (length (trace s) + 2) of
             Inr h \<Rightarrow>
               (Returns h, s\<lparr>trace := trace s @ [SubmitPriceWithProof args, Sleep 2000,
                                                   SubmitPriceWithProof args]\<rparr>)
           | Inl e2 \<Rightarrow>
               (case w_submitPriceWithProof w args (length (trace s) + 4) of
                  Inr h \<Rightarrow>
                    (Returns h, s\<lparr>trace := trace s @ [SubmitPriceWithProof args, Sleep 2000,
                                                        SubmitPriceWithProof args, Sleep 4000,
                                                        SubmitPriceWithProof args]\<rparr>)
                | Inl e3 \<Rightarrow>
                    (Throws e3, s\<lparr>trace := trace s @ [SubmitPriceWithProof args, Sleep 2000,
                                                        SubmitPriceWithProof args, Sleep 4000,
                                                        SubmitPriceWithProof args]\<rparr>))))
   \<and> length (filter is_submit (new_events s0 (snd (submitOnce w overridePrice s0)))) \<le> 3
   \<and> length (filter is_wait (new_events s0 (snd (submitOnce w overridePrice s0)))) \<le> 1
   \<and> (w_tx_wait w tx_hash (length (trace s)) = Inl e \<longrightarrow>
        conclude w priceResult proofData gfResult tx_hash s
          = (Throws e, s\<lparr>trace := trace s @ [TxWait tx_hash]\<rparr>))"
proof -
  have "w_tx_wait w tx_hash (length (trace s)) = Inl e \<longrightarrow>
        conclude w priceResult proofData gfResult tx_hash s
          = (Throws e, s\<lparr>trace := trace s @ [TxWait tx_hash]\<rparr>)"
    using conclude_wait_fails by blast
  then show ?thesis
    using send_outcomes [of w args s] submitOnce_chain_bound [of s0 w overridePrice]
    by (simp only: simp_thms)
qed

theorem C5_every_error_of_the_submit_call_is_retried_witness:
  "send reverting_world calm_args initial_state
     = (Throws (EthersError ''CALL_EXCEPTION'' ''execution reverted''),
        initial_state\<lparr>trace := [SubmitPriceWithProof calm_args, Sleep 2000,
                                 SubmitPriceWithProof calm_args, Sleep 4000,
                                 SubmitPriceWithProof calm_args]\<rparr>)
   \<and> length (filter is_submit
        (new_events initial_state (snd (submitOnce reverting_world None initial_state)))) \<le> 3
   \<and> w_tx_wait unconfirmed_world ''0x5e1f0123456789abcdef'' 0
       = Inl (EthersError ''CALL_EXCEPTION'' ''transaction execution reverted'')
   \<and> (\<forall>priceResult proofData gfResult.
         conclude unconfirmed_world priceResult proofData gfResult ''0x5e1f0123456789abcdef''
            initial_state
          = (Throws (EthersError ''CALL_EXCEPTION'' ''transaction execution reverted''),
             initial_state\<lparr>trace := [TxWait ''0x5e1f0123456789abcdef'']\<rparr>))"
proof -
  have r: "w_submitPriceWithProof reverting_world calm_args t
             = Inl (EthersError ''CALL_EXCEPTION'' ''execution reverted'')" for t
    by (simp add: reverting_world_def)
  have u: "w_tx_wait unconfirmed_world ''0x5e1f0123456789abcdef'' (length (trace initial_state))
             = Inl (EthersError ''CALL_EXCEPTION'' ''transaction execution reverted'')"
    by (simp add: unconfirmed_world_def)
  have z: "trace initial_state = []" by (simp add: initial_state_def)
  have a: "send reverting_world calm_args initial_state
     = (Throws (EthersError ''CALL_EXCEPTION'' ''execution reverted''),
        initial_state\<lparr>trace := [SubmitPriceWithProof calm_args, Sleep 2000,
                                 SubmitPriceWithProof calm_args, Sleep 4000,
                                 SubmitPriceWithProof calm_args]\<rparr>)"
    using C5_every_error_of_the_submit_call_is_retried
            [of reverting_world calm_args initial_state initial_state None
                "''0x5e1f0123456789abcdef''" undefined undefined undefined undefined]
    by (simp add: r z)
  have b: "length (filter is_submit
        (new_events initial_state (snd (submitOnce reverting_world None initial_state)))) \<le> 3"
    using C5_every_error_of_the_submit_call_is_retried
            [of reverting_world calm_args initial_state initial_state None
                "''0x5e1f0123456789abcdef''" undefined undefined undefined undefined]
    by blast
  have c: "conclude unconfirmed_world priceResult proofData gfResult ''0x5e1f0123456789abcdef''
            initial_state
          = (Throws (EthersError ''CALL_EXCEPTION'' ''transaction execution reverted''),
             initial_state\<lparr>trace := [TxWait ''0x5e1f0123456789abcdef'']\<rparr>)"
    for priceResult proofData gfResult
    using C5_every_error_of_the_submit_call_is_retried
            [of unconfirmed_world calm_args initial_state initial_state None
                "''0x5e1f0123456789abcdef''"
                "EthersError ''CALL_EXCEPTION'' ''transaction execution reverted''"
                priceResult proofData gfResult] u
    by (simp add: z)
  from a b c u show ?thesis by (simp add: z)
qed

text \<open>
  C5 as stated fails: where the contract reverts every submission, the cycle calls
  \<open>submitPriceWithProof\<close> three times, waiting 2000 ms and 4000 ms in between, before the
  revert is thrown.
\<close>

theorem C5_counterexample:
  "w_submitPriceWithProof reverting_world calm_args 0
     = Inl (EthersError ''CALL_EXCEPTION'' ''execution reverted'')
   \<and> send reverting_world calm_args initial_state
       = (Throws (EthersError ''CALL_EXCEPTION'' ''execution reverted''),
          initial_state\<lparr>trace := [SubmitPriceWithProof calm_args, Sleep 2000,
                                   SubmitPriceWithProof calm_args, Sleep 4000,
                                   SubmitPriceWithProof calm_args]\<rparr>)
   \<and> fst (submitOnce reverting_world None initial_state)
       = Throws (EthersError ''CALL_EXCEPTION'' ''execution reverted'')
   \<and> filter is_submit
        (new_events initial_state (snd (submitOnce reverting_world None initial_state)))
       = [SubmitPriceWithProof calm_args, SubmitPriceWithProof calm_args,
          SubmitPriceWithProof calm_args]"
proof -
  have r: "w_submitPriceWithProof reverting_world calm_args t
             = Inl (EthersError ''CALL_EXCEPTION'' ''execution reverted'')" for t
    by (simp add: reverting_world_def)
  have "send reverting_world calm_args initial_state
       = (Throws (EthersError ''CALL_EXCEPTION'' ''execution reverted''),
          initial_state\<lparr>trace := [SubmitPriceWithProof calm_args, Sleep 2000,
                                   SubmitPriceWithProof calm_args, Sleep 4000,
                                   SubmitPriceWithProof calm_args]\<rparr>)"
    by (simp add: send_outcomes r initial_state_def)
  then show ?thesis using reverting_run r by simp
qed

text \<open>
  C8. Every call of \<open>submitPriceWithProof\<close> that \<open>submitOnce\<close> makes carries a proof that the
  proof engine has returned, with its first and third element in the engine's order and
  its second element as the 2 by 2 matrix whose row \<open>i\<close> is \<open>[pi_b[i][1], pi_b[i][0]]\<close>,
  the two coordinates swapped.
\<close>

theorem C8_second_proof_element_is_swapped:
  assumes run: "submitOnce w overridePrice s = (r, s')"
    and sub: "SubmitPriceWithProof args \<in> set (new_events s s')"
  shows "\<exists>p publicSignals price timestamp salt t.
           w_fullProve w price timestamp salt t = Inr (p, publicSignals)
           \<and> 2 \<le> length (pi_a p) \<and> 2 \<le> length (pi_b p) \<and> 2 \<le> length (pi_b p ! 0)
           \<and> 2 \<le> length (pi_b p ! 1) \<and> 2 \<le> length (pi_c p)
           \<and> sa_proof_a args = [pi_a p ! 0, pi_a p ! 1]
           \<and> sa_proof_b args = [[pi_b p ! 0 ! 1, pi_b p ! 0 ! 0], [pi_b p ! 1 ! 1, pi_b p ! 1 ! 0]]
           \<and> sa_proof_c args = [pi_c p ! 0, pi_c p ! 1]"
proof -
  from submitOnce_submissions [OF run sub] obtain pr pd s1 s2 parsed gf s3 where
    p: "prepare w overridePrice s = (Returns (pr, pd), s1)"
    and q: "parse_proof (pd_proof pd) = Inr parsed"
    and g: "archive_pending w pd s2 = (Returns gf, s3)"
    and a: "args = submit_args_of pd parsed (fst gf)"
    by blast
  from prepare_Returns [OF p] obtain t where
    f: "w_fullProve w (pd_price pd) (pd_timestamp pd) (pd_salt pd) t
          = Inr (pd_proof pd, pd_publicSignals pd)" by blast
  from q have
    "2 \<le> length (pi_a (pd_proof pd)) \<and> 2 \<le> length (pi_b (pd_proof pd))
     \<and> 2 \<le> length (pi_b (pd_proof pd) ! 0) \<and> 2 \<le> length (pi_b (pd_proof pd) ! 1)
     \<and> 2 \<le> length (pi_c (pd_proof pd))
     \<and> parsed = ([pi_a (pd_proof pd) ! 0, pi_a (pd_proof pd) ! 1],
                 [[pi_b (pd_proof pd) ! 0 ! 1, pi_b (pd_proof pd) ! 0 ! 0],
                  [pi_b (pd_proof pd) ! 1 ! 1, pi_b (pd_proof pd) ! 1 ! 0]],
                 [pi_c (pd_proof pd) ! 0, pi_c (pd_proof pd) ! 1])"
    by (simp only: parse_proof_Inr)
  then have
    "2 \<le> length (pi_a (pd_proof pd)) \<and> 2 \<le> length (pi_b (pd_proof pd))
     \<and> 2 \<le> length (pi_b (pd_proof pd) ! 0) \<and> 2 \<le> length (pi_b (pd_proof pd) ! 1)
     \<and> 2 \<le> length (pi_c (pd_proof pd))
     \<and> sa_proof_a args = [pi_a (pd_proof pd) ! 0, pi_a (pd_proof pd) ! 1]
     \<and> sa_proof_b args = [[pi_b (pd_proof pd) ! 0 ! 1, pi_b (pd_proof pd) ! 0 ! 0],
                          [pi_b (pd_proof pd) ! 1 ! 1, pi_b (pd_proof pd) ! 1 ! 0]]
     \<and> sa_proof_c args = [pi_c (pd_proof pd) ! 0, pi_c (pd_proof pd) ! 1]"
    using a by (simp add: submit_args_of_def)
  with f show ?thesis by blast
qed

theorem C8_second_proof_element_is_swapped_witness:
  "SubmitPriceWithProof calm_args
     \<in> set (new_events initial_state (snd (submitOnce calm_world None initial_state)))
   \<and> (\<exists>p publicSignals price timestamp salt t.
        w_fullProve calm_world price timestamp salt t = Inr (p, publicSignals)
        \<and> sa_proof_a calm_args = [pi_a p ! 0, pi_a p ! 1]
        \<and> sa_proof_b calm_args
            = [[pi_b p ! 0 ! 1, pi_b p ! 0 ! 0], [pi_b p ! 1 ! 1, pi_b p ! 1 ! 0]]
        \<and> sa_proof_c calm_args = [pi_c p ! 0, pi_c p ! 1])
   \<and> pi_b example_proof = [[21, 22], [23, 24], [1, 0]]
   \<and> sa_proof_b calm_args = [[22, 21], [24, 23]]"
proof -
  let ?calm = "submitOnce calm_world None initial_state"
  have "SubmitPriceWithProof calm_args
          \<in> set (filter is_chain (new_events initial_state (snd ?calm)))"
    using calm_run by simp
  then have a: "SubmitPriceWithProof calm_args \<in> set (new_events initial_state (snd ?calm))"
    by simp
  have r: "?calm = (fst ?calm, snd ?calm)" by simp
  from C8_second_proof_element_is_swapped [OF r a]
  have "\<exists>p publicSignals price timestamp salt t.
        w_fullProve calm_world price timestamp salt t = Inr (p, publicSignals)
        \<and> sa_proof_a calm_args = [pi_a p ! 0, pi_a p ! 1]
        \<and> sa_proof_b calm_args
            = [[pi_b p ! 0 ! 1, pi_b p ! 0 ! 0], [pi_b p ! 1 ! 1, pi_b p ! 1 ! 0]]
        \<and> sa_proof_c calm_args = [pi_c p ! 0, pi_c p ! 1]"
    by blast
  moreover have "pi_b example_proof = [[21, 22], [23, 24], [1, 0]]"
    by (simp add: example_proof_def)
  moreover have "sa_proof_b calm_args = [[22, 21], [24, 23]]"
    by (simp add: calm_args_def)
  ultimately show ?thesis using a by blast
qed

text \<open>
  C7. \<open>uploadProof\<close> first creates the local directory and writes the record to the local
  file, whatever the storage network does afterwards; only an error of these two local
  steps is thrown. Once they have succeeded, every further event is a call to the storage
  network, and whether these calls succeed or fail \<open>uploadProof\<close> returns an entry, whose
  reference is the Keccak-256 hash of the object's name and whose \<open>onGreenfield\<close> is true
  exactly when a storage client exists and the remote upload went through without an
  error. \<open>ensureBucket\<close> never throws.
\<close>

theorem C7_archiving_survives_remote_failure:
  "(\<exists>r s'. uploadProof w proofData txHash s = (r, s')
      \<and> (let name = object_name proofData txHash;
              dir = w_LOCAL_DIR w;
              path = path_join dir name;
              payload = w_JSON_stringify w
                          (record_of w proofData txHash
                             (w_toISOString w (w_Date_now w (length (trace s)))))
          in case w_mkdirSync w dir (length (trace s) + 1) of
               Inl e \<Rightarrow> r = Throws e \<and> new_events s s' = [ReadClock, MkdirSync dir]
             | Inr u \<Rightarrow>
                 (case w_writeFileSync w path payload (length (trace s) + 2) of
                    Inl e \<Rightarrow> r = Throws e
                             \<and> new_events s s' = [ReadClock, MkdirSync dir, WriteFile path payload]
                  | Inr u \<Rightarrow>
                      (\<exists>remote.
                         new_events s s' = [ReadClock, MkdirSync dir, WriteFile path payload] @ remote
                         \<and> list_all is_remote remote
                         \<and> r = Returns
                                 (entry_of w name
                                    (w_sdk_client w
                                     \<and> fst (remote_upload w name (toUtf8Bytes payload)
                                              (s\<lparr>trace := trace s @ [ReadClock, MkdirSync dir,
                                                                     WriteFile path payload]\<rparr>))
                                         = Returns True))))))
   \<and> (\<exists>b s1. ensureBucket w s = (Returns b, s1) \<and> list_all is_remote (new_events s s1))"
proof -
  let ?name = "object_name proofData txHash"
  let ?dir = "w_LOCAL_DIR w"
  let ?path = "path_join ?dir ?name"
  let ?payload = "w_JSON_stringify w
                    (record_of w proofData txHash
                       (w_toISOString w (w_Date_now w (length (trace s)))))"
  let ?s2 = "s\<lparr>trace := trace s @ [ReadClock, MkdirSync ?dir, WriteFile ?path ?payload]\<rparr>"
  obtain r s' where run: "uploadProof w proofData txHash s = (r, s')"
    by (cases "uploadProof w proofData txHash s")
  have up: "case w_mkdirSync w ?dir (length (trace s) + 1) of
               Inl e \<Rightarrow> r = Throws e \<and> new_events s s' = [ReadClock, MkdirSync ?dir]
             | Inr u \<Rightarrow>
                 (case w_writeFileSync w ?path ?payload (length (trace s) + 2) of
                    Inl e \<Rightarrow> r = Throws e
                             \<and> new_events s s' = [ReadClock, MkdirSync ?dir, WriteFile ?path ?payload]
                  | Inr u \<Rightarrow>
                      (\<exists>remote.
                         new_events s s' = [ReadClock, MkdirSync ?dir, WriteFile ?path ?payload] @ remote
                         \<and> list_all is_remote remote
                         \<and> r = Returns
                                 (entry_of w ?name
                                    (w_sdk_client w
                                     \<and> fst (remote_upload w ?name (toUtf8Bytes ?payload) ?s2)
                                         = Returns True))))"
  proof (cases "w_mkdirSync w ?dir (length (trace s) + 1)")
    case (Inl e)
    then show ?thesis
      using run by (auto simp: uploadProof_unfold Let_def new_events_def)
  next
    case mk: (Inr u)
    show ?thesis
    proof (cases "w_writeFileSync w ?path ?payload (length (trace s) + 2)")
      case (Inl e)
      then show ?thesis
        using run mk by (auto simp: uploadProof_unfold Let_def new_events_def)
    next
      case wr: (Inr u2)
      show ?thesis
      proof (cases "w_sdk_client w")
        case False
        then have "r = Returns (entry_of w ?name False)" "s' = ?s2"
          using run mk wr by (auto simp: uploadProof_unfold Let_def)
        then show ?thesis
          using mk wr False by (simp add: new_events_def)
      next
        case True
        obtain rr s3 where ru: "remote_upload w ?name (toUtf8Bytes ?payload) ?s2 = (rr, s3)"
          by (cases "remote_upload w ?name (toUtf8Bytes ?payload) ?s2")
        from onlyD [OF only_remote_remote_upload ru] obtain remote where
          rem: "trace s3 = trace ?s2 @ remote" "list_all is_remote remote" by blast
        have nr: "rr \<noteq> NoReturn"
          using total_remote_upload [of w ?name "toUtf8Bytes ?payload"] ru
          by (auto simp: total_def dest: spec [of _ ?s2])
        have eq: "uploadProof w proofData txHash s =
                    (case rr of Returns b \<Rightarrow> (Returns (entry_of w ?name b), s3)
                              | Throws e \<Rightarrow> (Returns (entry_of w ?name False), s3)
                              | NoReturn \<Rightarrow> (NoReturn, s3))"
          using mk wr True ru by (simp add: uploadProof_unfold Let_def)
        have "r = Returns (entry_of w ?name (rr = Returns True)) \<and> s' = s3"
        proof (cases rr)
          case (Returns b)
          then have "b" using remote_upload_Returns ru by blast
          then show ?thesis using eq run Returns by simp
        next
          case (Throws e)
          then show ?thesis using eq run by simp
        next
          case NoReturn
          then show ?thesis using nr by simp
        qed
        then have "r = Returns (entry_of w ?name
                      (w_sdk_client w
                       \<and> fst (remote_upload w ?name (toUtf8Bytes ?payload) ?s2) = Returns True))"
          and "new_events s s' = [ReadClock, MkdirSync ?dir, WriteFile ?path ?payload] @ remote"
          using True ru rem by (simp_all add: new_events_def)
        then show ?thesis using mk wr rem(2) by auto
      qed
    qed
  qed
  obtain b s1 where eb: "ensureBucket w s = (Returns b, s1)"
    using ensureBucket_Returns by blast
  from onlyD [OF only_remote_ensureBucket eb] have "list_all is_remote (new_events s s1)"
    by (auto simp: new_events_def)
  with eb have "\<exists>b s1. ensureBucket w s = (Returns b, s1) \<and> list_all is_remote (new_events s s1)"
    by blast
  moreover have "\<exists>r s'. uploadProof w proofData txHash s = (r, s')
      \<and> (let name = object_name proofData txHash;
              dir = w_LOCAL_DIR w;
              path = path_join dir name;
              payload = w_JSON_stringify w
                          (record_of w proofData txHash
                             (w_toISOString w (w_Date_now w (length (trace s)))))
          in case w_mkdirSync w dir (length (trace s) + 1) of
               Inl e \<Rightarrow> r = Throws e \<and> new_events s s' = [ReadClock, MkdirSync dir]
             | Inr u \<Rightarrow>
                 (case w_writeFileSync w path payload (length (trace s) + 2) of
                    Inl e \<Rightarrow> r = Throws e
                             \<and> new_events s s' = [ReadClock, MkdirSync dir, WriteFile path payload]
                  | Inr u \<Rightarrow>
                      (\<exists>remote.
                         new_events s s' = [ReadClock, MkdirSync dir, WriteFile path payload] @ remote
                         \<and> list_all is_remote remote
                         \<and> r = Returns
                                 (entry_of w name
                                    (w_sdk_client w
                                     \<and> fst (remote_upload w name (toUtf8Bytes payload)
                                              (s\<lparr>trace := trace s @ [ReadClock, MkdirSync dir,
                                                                     WriteFile path payload]\<rparr>))
                                         = Returns True)))))"
    unfolding Let_def using run up by blast
  ultimately show ?thesis by (rule conjI [rotated])
qed

theorem C7_archiving_survives_remote_failure_witness:
  "(\<exists>res s'. uploadProof offline_storage_world calm_proof_data ''pending-1700000000''
                initial_state = (Returns res, s')
      \<and> up_objectName res = ''veris-proof-1700000000-pending-17.json''
      \<and> up_greenfieldRef res = calm_ref
      \<and> up_onGreenfield res = False
      \<and> take 3 (trace s')
          = [ReadClock, MkdirSync ''greenfield-proofs'',
             WriteFile ''greenfield-proofs/veris-proof-1700000000-pending-17.json''
               ''{record pending-1700000000}''])
   \<and> (\<exists>b s1. ensureBucket offline_storage_world initial_state = (Returns b, s1))"
proof -
  have ru: "fst (remote_upload offline_storage_world name bs s)
              = Throws (Error ''connect ETIMEDOUT'')" for name bs s
    by (simp add: remote_upload_def and_then_def call_def offline_storage_world_def
          calm_world_def)
  have n: "object_name calm_proof_data ''pending-1700000000''
             = ''veris-proof-1700000000-pending-17.json''"
    by (simp add: object_name_def calm_proof_data_def dec0)
  have w: "w_mkdirSync offline_storage_world d t = Inr ()"
    "w_writeFileSync offline_storage_world p c t = Inr ()"
    "w_LOCAL_DIR offline_storage_world = ''greenfield-proofs''"
    "w_keccak256 offline_storage_world = toy_keccak"
    "w_JSON_stringify offline_storage_world = (\<lambda>r. ''{record '' @ ar_txHash r @ ''}'')"
    for d t p c
    by (simp_all add: offline_storage_world_def calm_world_def)
  from C7_archiving_survives_remote_failure
         [of offline_storage_world calm_proof_data "''pending-1700000000''" initial_state]
  show ?thesis
    by (auto simp: Let_def ru n w record_of_def entry_of_def new_events_def initial_state_def
          path_join_def calm_ref_def)
qed

text \<open>
  C10. In a cycle of \<open>submitOnce\<close> that returns, with \<open>T\<close> the timestamp of the proof data:
  the record is archived before the submission under the tag \<open>pending-T\<close>; the reference
  in every call of \<open>submitPriceWithProof\<close>, and in the result, is the Keccak-256 hash of
  that archive's object name \<open>veris-proof-T-\<close>, the first ten characters of \<open>pending-T\<close>,
  \<open>.json\<close>, or, when that archiving throws, the hash of \<open>veris-proof-T\<close>. After the
  confirmation the record is archived again under the transaction hash; the entry this
  returns, with the hash of its own object name, is dropped. That object name is not
  \<open>veris-proof-T\<close>, and it is the name of the first archive only if the transaction hash
  and \<open>pending-T\<close> agree on their first ten characters, which a hash beginning with \<open>0x\<close>
  does not. So, for a transaction hash beginning with \<open>0x\<close> and Keccak-256 without a
  collision among the three names, the reference of the cycle is not the hash of the name
  of the record that carries the transaction hash.
\<close>

theorem C10_reference_on_chain_names_the_pending_record:
  assumes run: "submitOnce w overridePrice s = (Returns sub, s')"
  shows "\<exists>pr pd s1 s2 b s3 out s4 args s5 out2 s6.
           prepare w overridePrice s = (Returns (pr, pd), s1)
           \<and> verifyProof w (pd_proof pd) (pd_publicSignals pd) s1 = (Returns True, s2)
           \<and> ensureBucket w s2 = (Returns b, s3)
           \<and> uploadProof w pd (''pending-'' @ BigInt_toString (pd_timestamp pd)) s3 = (out, s4)
           \<and> sub_greenfieldRef sub
               = w_keccak256 w (toUtf8Bytes
                   (case out of
                      Returns res \<Rightarrow>
                        object_name pd (''pending-'' @ BigInt_toString (pd_timestamp pd))
                    | Throws e \<Rightarrow> ''veris-proof-'' @ BigInt_toString (pd_timestamp pd)
                    | NoReturn \<Rightarrow> ''veris-proof-'' @ BigInt_toString (pd_timestamp pd)))
           \<and> sa_greenfieldRef args = sub_greenfieldRef sub
           \<and> sa_timestamp args = pd_timestamp pd
           \<and> SubmitPriceWithProof args \<in> set (new_events s s')
           \<and> (\<forall>a. SubmitPriceWithProof a \<in> set (new_events s s') \<longrightarrow> a = args)
           \<and> send w args s4 = (Returns (sub_txHash sub), s5)
           \<and> uploadProof w pd (sub_txHash sub)
                (s5\<lparr>trace := trace s5 @ [TxWait (sub_txHash sub)]\<rparr>) = (out2, s6)
           \<and> (\<forall>res. out2 = Returns res \<longrightarrow>
                  up_objectName res = object_name pd (sub_txHash sub)
                  \<and> up_greenfieldRef res
                      = w_keccak256 w (toUtf8Bytes (object_name pd (sub_txHash sub))))
           \<and> s' = s6\<lparr>trace := trace s6 @ [WriteFile (submission_log w pd)
                                              (w_JSON_stringify_submission w sub)]\<rparr>
           \<and> object_name pd (sub_txHash sub)
               \<noteq> ''veris-proof-'' @ BigInt_toString (pd_timestamp pd)
           \<and> (object_name pd (sub_txHash sub)
                 = object_name pd (''pending-'' @ BigInt_toString (pd_timestamp pd))
               \<longleftrightarrow> take 10 (sub_txHash sub)
                     = take 10 (''pending-'' @ BigInt_toString (pd_timestamp pd)))
           \<and> (take 2 (sub_txHash sub) = ''0x'' \<longrightarrow>
                 object_name pd (sub_txHash sub)
                   \<noteq> object_name pd (''pending-'' @ BigInt_toString (pd_timestamp pd)))
           \<and> (take 2 (sub_txHash sub) = ''0x''
                \<and> inj_on (\<lambda>name. w_keccak256 w (toUtf8Bytes name))
                     {object_name pd (sub_txHash sub),
                      object_name pd (''pending-'' @ BigInt_toString (pd_timestamp pd)),
                      ''veris-proof-'' @ BigInt_toString (pd_timestamp pd)} \<longrightarrow>
                 sub_greenfieldRef sub
                   \<noteq> w_keccak256 w (toUtf8Bytes (object_name pd (sub_txHash sub))))"
proof -
  from submitOnce_Returns_anatomy [OF run] obtain pr pd s1 s2 parsed gf s4 h s5 where
    p: "prepare w overridePrice s = (Returns (pr, pd), s1)"
    and v: "verifyProof w (pd_proof pd) (pd_publicSignals pd) s1 = (Returns True, s2)"
    and q: "parse_proof (pd_proof pd) = Inr parsed"
    and a: "archive_pending w pd s2 = (Returns gf, s4)"
    and sd: "send w (submit_args_of pd parsed (fst gf)) s4 = (Returns h, s5)"
    and c: "conclude w pr pd gf h s5 = (Returns sub, s')"
    and m: "SubmitPriceWithProof (submit_args_of pd parsed (fst gf)) \<in> set (new_events s s')"
    by blast
  let ?args = "submit_args_of pd parsed (fst gf)"
  let ?tag = "''pending-'' @ BigInt_toString (pd_timestamp pd)"
  from archive_pending_ref [OF a] obtain b s3 out where
    eb: "ensureBucket w s2 = (Returns b, s3)"
    and up: "uploadProof w pd ?tag s3 = (out, s4)"
    and gf: "fst gf = (case out of
                         Returns res \<Rightarrow> w_keccak256 w (toUtf8Bytes (object_name pd ?tag))
                       | Throws e \<Rightarrow> fallback_ref w pd
                       | NoReturn \<Rightarrow> fallback_ref w pd)"
    unfolding pending_tag_def by blast
  from conclude_Returns_anatomy [OF c] obtain rcpt out2 s6 where
    sub: "sub = submission_of pr pd gf h rcpt"
    and up2: "uploadProof w pd h (s5\<lparr>trace := trace s5 @ [TxWait h]\<rparr>) = (out2, s6)"
    and fin: "s' = s6\<lparr>trace := trace s6 @ [WriteFile (submission_log w pd)
                                              (w_JSON_stringify_submission w sub)]\<rparr>"
    by blast
  have h: "sub_txHash sub = h" and ref: "sub_greenfieldRef sub = fst gf"
    using sub by (simp_all add: submission_of_def)
  have r1: "sub_greenfieldRef sub
               = w_keccak256 w (toUtf8Bytes
                   (case out of
                      Returns res \<Rightarrow> object_name pd ?tag
                    | Throws e \<Rightarrow> ''veris-proof-'' @ BigInt_toString (pd_timestamp pd)
                    | NoReturn \<Rightarrow> ''veris-proof-'' @ BigInt_toString (pd_timestamp pd)))"
    unfolding ref gf by (cases out) (simp_all add: fallback_ref_def)
  have r2: "sa_greenfieldRef ?args = sub_greenfieldRef sub"
    "sa_timestamp ?args = pd_timestamp pd"
    by (simp_all add: submit_args_of_def ref)
  have r3: "\<forall>a. SubmitPriceWithProof a \<in> set (new_events s s') \<longrightarrow> a = ?args"
  proof (intro allI impI)
    fix a0 assume "SubmitPriceWithProof a0 \<in> set (new_events s s')"
    from submitOnce_submissions [OF run this] obtain pr' pd' s1' s2' parsed' gf' s3' where
      *: "prepare w overridePrice s = (Returns (pr', pd'), s1')"
         "verifyProof w (pd_proof pd') (pd_publicSignals pd') s1' = (Returns True, s2')"
         "parse_proof (pd_proof pd') = Inr parsed'"
         "archive_pending w pd' s2' = (Returns gf', s3')"
         "a0 = submit_args_of pd' parsed' (fst gf')"
      by blast
    from *(1) p have e1: "pd' = pd" "s1' = s1" by simp_all
    from *(2) v e1 have e2: "s2' = s2" by simp
    from *(3) q e1 have e3: "parsed' = parsed" by simp
    from *(4) a e1 e2 have e4: "gf' = gf" by simp
    show "a0 = ?args" using *(5) e1 e3 e4 by simp
  qed
  have r4: "\<forall>res. out2 = Returns res \<longrightarrow>
                  up_objectName res = object_name pd h
                  \<and> up_greenfieldRef res = w_keccak256 w (toUtf8Bytes (object_name pd h))"
    using uploadProof_Returns up2 by blast
  have r5: "object_name pd h \<noteq> ''veris-proof-'' @ BigInt_toString (pd_timestamp pd)"
    using fallback_differs [of pd h] by simp
  have r6: "object_name pd h = object_name pd ?tag \<longleftrightarrow> take 10 h = take 10 ?tag"
    by (rule object_name_eq)
  have r7: "take 2 h = ''0x'' \<longrightarrow> object_name pd h \<noteq> object_name pd ?tag"
    using pending_differs [of h pd] unfolding pending_tag_def object_name_eq by blast
  have r8: "take 2 h = ''0x''
             \<and> inj_on (\<lambda>name. w_keccak256 w (toUtf8Bytes name))
                  {object_name pd h, object_name pd ?tag,
                   ''veris-proof-'' @ BigInt_toString (pd_timestamp pd)} \<longrightarrow>
             sub_greenfieldRef sub \<noteq> w_keccak256 w (toUtf8Bytes (object_name pd h))"
  proof (intro impI, elim conjE)
    assume x: "take 2 h = ''0x''"
      and inj: "inj_on (\<lambda>name. w_keccak256 w (toUtf8Bytes name))
                  {object_name pd h, object_name pd ?tag,
                   ''veris-proof-'' @ BigInt_toString (pd_timestamp pd)}"
    let ?pre = "case out of
                  Returns res \<Rightarrow> object_name pd ?tag
                | Throws e \<Rightarrow> ''veris-proof-'' @ BigInt_toString (pd_timestamp pd)
                | NoReturn \<Rightarrow> ''veris-proof-'' @ BigInt_toString (pd_timestamp pd)"
    have ne: "?pre \<noteq> object_name pd h"
      using r5 r7 x by (cases out) auto
    have mem: "?pre \<in> {object_name pd h, object_name pd ?tag,
                         ''veris-proof-'' @ BigInt_toString (pd_timestamp pd)}"
      by (cases out) simp_all
    have "w_keccak256 w (toUtf8Bytes ?pre) \<noteq> w_keccak256 w (toUtf8Bytes (object_name pd h))"
    proof
      assume eq: "w_keccak256 w (toUtf8Bytes ?pre)
                    = w_keccak256 w (toUtf8Bytes (object_name pd h))"
      have mem2: "object_name pd h \<in> {object_name pd h, object_name pd ?tag,
                         ''veris-proof-'' @ BigInt_toString (pd_timestamp pd)}"
        by simp
      from inj_onD [OF inj eq mem mem2] have "?pre = object_name pd h" .
      with ne show False by simp
    qed
    then show "sub_greenfieldRef sub \<noteq> w_keccak256 w (toUtf8Bytes (object_name pd h))"
      using r1 by simp
  qed
  show ?thesis
    unfolding h
    using p v eb up r1 [unfolded h] r2 m r3 sd up2 r4 fin r5 r6 r7 r8 h
    by blast
qed

theorem C10_reference_on_chain_names_the_pending_record_witness:
  "fst (submitOnce calm_world None initial_state) = Returns calm_submission
   \<and> (\<exists>pd (out :: upload_result outcome) args.
         sub_greenfieldRef calm_submission
           = w_keccak256 calm_world (toUtf8Bytes
               (case out of
                  Returns res \<Rightarrow>
                    object_name pd (''pending-'' @ BigInt_toString (pd_timestamp pd))
                | Throws e \<Rightarrow> ''veris-proof-'' @ BigInt_toString (pd_timestamp pd)
                | NoReturn \<Rightarrow> ''veris-proof-'' @ BigInt_toString (pd_timestamp pd)))
         \<and> sa_greenfieldRef args = sub_greenfieldRef calm_submission
         \<and> SubmitPriceWithProof args
             \<in> set (new_events initial_state (snd (submitOnce calm_world None initial_state))))
   \<and> sub_greenfieldRef calm_submission
       = toy_keccak (toUtf8Bytes ''veris-proof-1700000000-pending-17.json'')
   \<and> object_name calm_proof_data (sub_txHash calm_submission)
       = ''veris-proof-1700000000-0x5e1f0123.json''
   \<and> sub_greenfieldRef calm_submission
       \<noteq> toy_keccak (toUtf8Bytes ''veris-proof-1700000000-0x5e1f0123.json'')
   \<and> fst (submitOnce readonly_dir_world None initial_state) = Returns fallback_submission
   \<and> (\<exists>pd (out :: upload_result outcome) args.
         sub_greenfieldRef fallback_submission
           = w_keccak256 readonly_dir_world (toUtf8Bytes
               (case out of
                  Returns res \<Rightarrow>
                    object_name pd (''pending-'' @ BigInt_toString (pd_timestamp pd))
                | Throws e \<Rightarrow> ''veris-proof-'' @ BigInt_toString (pd_timestamp pd)
                | NoReturn \<Rightarrow> ''veris-proof-'' @ BigInt_toString (pd_timestamp pd)))
         \<and> sa_greenfieldRef args = sub_greenfieldRef fallback_submission
         \<and> SubmitPriceWithProof args
             \<in> set (new_events initial_state
                      (snd (submitOnce readonly_dir_world None initial_state))))
   \<and> sub_greenfieldRef fallback_submission = toy_keccak (toUtf8Bytes ''veris-proof-1700000000'')"
proof -
  let ?calm = "submitOnce calm_world None initial_state"
  let ?ro = "submitOnce readonly_dir_world None initial_state"
  have r1: "?calm = (Returns calm_submission, snd ?calm)"
    using calm_run by (simp add: prod_eq_iff)
  have r2: "?ro = (Returns fallback_submission, snd ?ro)"
    using readonly_run by (simp add: prod_eq_iff)
  from C10_reference_on_chain_names_the_pending_record [OF r1]
  have a: "\<exists>pd (out :: upload_result outcome) args.
         sub_greenfieldRef calm_submission
           = w_keccak256 calm_world (toUtf8Bytes
               (case out of
                  Returns res \<Rightarrow>
                    object_name pd (''pending-'' @ BigInt_toString (pd_timestamp pd))
                | Throws e \<Rightarrow> ''veris-proof-'' @ BigInt_toString (pd_timestamp pd)
                | NoReturn \<Rightarrow> ''veris-proof-'' @ BigInt_toString (pd_timestamp pd)))
         \<and> sa_greenfieldRef args = sub_greenfieldRef calm_submission
         \<and> SubmitPriceWithProof args \<in> set (new_events initial_state (snd ?calm))"
    by blast
  from C10_reference_on_chain_names_the_pending_record [OF r2]
  have b: "\<exists>pd (out :: upload_result outcome) args.
         sub_greenfieldRef fallback_submission
           = w_keccak256 readonly_dir_world (toUtf8Bytes
               (case out of
                  Returns res \<Rightarrow>
                    object_name pd (''pending-'' @ BigInt_toString (pd_timestamp pd))
                | Throws e \<Rightarrow> ''veris-proof-'' @ BigInt_toString (pd_timestamp pd)
                | NoReturn \<Rightarrow> ''veris-proof-'' @ BigInt_toString (pd_timestamp pd)))
         \<and> sa_greenfieldRef args = sub_greenfieldRef fallback_submission
         \<and> SubmitPriceWithProof args \<in> set (new_events initial_state (snd ?ro))"
    by blast
  have c: "sub_greenfieldRef calm_submission
             = toy_keccak (toUtf8Bytes ''veris-proof-1700000000-pending-17.json'')"
    by (simp add: calm_submission_def calm_ref_def)
  have d: "object_name calm_proof_data (sub_txHash calm_submission)
             = ''veris-proof-1700000000-0x5e1f0123.json''"
    by (simp add: object_name_def calm_proof_data_def calm_submission_def dec0)
  have e: "sub_greenfieldRef fallback_submission
             = toy_keccak (toUtf8Bytes ''veris-proof-1700000000'')"
    by (simp add: fallback_submission_def)
  have f: "fst ?calm = Returns calm_submission" "fst ?ro = Returns fallback_submission"
    using calm_run readonly_run by simp_all
  have g: "sub_greenfieldRef calm_submission
             \<noteq> toy_keccak (toUtf8Bytes ''veris-proof-1700000000-0x5e1f0123.json'')"
  proof -
    from C10_reference_on_chain_names_the_pending_record [OF r1]
    obtain pd args where
      t: "sa_timestamp args = pd_timestamp pd"
      and only_args: "\<forall>a. SubmitPriceWithProof a
                          \<in> set (new_events initial_state (snd ?calm)) \<longrightarrow> a = args"
      and concl: "take 2 (sub_txHash calm_submission) = ''0x''
                \<and> inj_on (\<lambda>name. w_keccak256 calm_world (toUtf8Bytes name))
                     {object_name pd (sub_txHash calm_submission),
                      object_name pd (''pending-'' @ BigInt_toString (pd_timestamp pd)),
                      ''veris-proof-'' @ BigInt_toString (pd_timestamp pd)} \<longrightarrow>
                 sub_greenfieldRef calm_submission
                   \<noteq> w_keccak256 calm_world
                        (toUtf8Bytes (object_name pd (sub_txHash calm_submission)))"
      by blast
    have "SubmitPriceWithProof calm_args
            \<in> set (filter is_chain (new_events initial_state (snd ?calm)))"
      using calm_run by simp
    then have "SubmitPriceWithProof calm_args \<in> set (new_events initial_state (snd ?calm))"
      by simp
    with only_args have "args = calm_args" by blast
    with t have ts: "pd_timestamp pd = 1700000000" by (simp add: calm_args_def)
    have k: "w_keccak256 calm_world = toy_keccak" by (simp add: calm_world_def)
    have n1: "object_name pd (sub_txHash calm_submission)
                = ''veris-proof-1700000000-0x5e1f0123.json''"
      by (simp add: object_name_def ts dec0 calm_submission_def)
    have n2: "object_name pd (''pending-'' @ BigInt_toString (pd_timestamp pd))
                = ''veris-proof-1700000000-pending-17.json''"
      by (simp add: object_name_def ts dec0)
    have n3: "''veris-proof-'' @ BigInt_toString (pd_timestamp pd) = ''veris-proof-1700000000''"
      by (simp add: ts dec0)
    have x: "take 2 (sub_txHash calm_submission) = ''0x''"
      by (simp add: calm_submission_def)
    have inj: "inj_on (\<lambda>name. toy_keccak (toUtf8Bytes name))
                 {''veris-proof-1700000000-0x5e1f0123.json'',
                  ''veris-proof-1700000000-pending-17.json'', ''veris-proof-1700000000''}"
      unfolding inj_on_def using toy_keccak_names by fastforce
    from concl x inj show ?thesis unfolding k n1 n2 n3 by blast
  qed
  from f a b c d e g show ?thesis by blast
qed

end
